theory Spec2Isabelle
  imports Main "HOL-Library.Word"
begin

section \<open>Common vocabulary\<close>

text \<open>
  A buffer cell is a byte (\<open>uint8_t\<close>, or the \<open>char\<close> of a \<open>std::string\<close>); positions
  are \<open>size_t\<close>, taken as 64 bits wide, so that \<open>+\<close> on positions wraps around as it
  does in the program.
\<close>

type_synonym byte = "8 word"
type_synonym size_t = "64 word"
type_synonym std_string = "byte list"

text \<open>
  What a call can end with besides returning. \<open>OutOfRange\<close> is the exception of a read
  past the end of the source. \<open>InvalidFree\<close> stands for \<open>delete\<close> applied to an
  address that holds no live allocation (a double free). \<open>ConstraintNotSatisfied\<close>
  stands for a template whose \<open>requires\<close> clause rejects the type it is
  instantiated with.
\<close>

datatype error = OutOfRange | InvalidFree | ConstraintNotSatisfied

datatype 'a outcome = Returned 'a | Raised error

section \<open>Static types and values of attributes\<close>

text \<open>
  Modelled from the spec: the type categories of the convertor's dispatch (section 4.2);
  \<open>serializer/convertor/convertor.hpp\<close> is not among the sources. The attribute
  container itself only asks of a type \<open>H\<close> whether it is a raw pointer
  (\<open>std::is_pointer_v<H>\<close>).
\<close>

datatype ty =
    TRaw nat          \<comment> \<open>flat, trivially copyable aggregate of the given static size\<close>
  | TString           \<comment> \<open>\<open>std::string\<close>\<close>
  | TArray nat ty     \<comment> \<open>container of static length, \<open>std::array<T, N>\<close>\<close>
  | TVec ty           \<comment> \<open>container of variable length\<close>
  | TPtr ty           \<comment> \<open>owned raw pointer \<open>T *\<close>\<close>
  | TObj "ty list"    \<comment> \<open>nested serializable object, by the types of its attributes\<close>

datatype val =
    VRaw "byte list"
  | VStr "byte list"
  | VArr "val list"
  | VVec "val list"
  | VPtr "val option"  \<comment> \<open>a pointer as what it owns: nothing, or the pointee\<close>
  | VObj "val list"

fun is_pointer_v :: "ty \<Rightarrow> bool" where
  "is_pointer_v (TPtr T) = True"
| "is_pointer_v _ = False"

section \<open>The encodings of the convertor\<close>

text \<open>
  Modelled from the spec: the encoding and decoding of one value by its type category
  (section 4.2, in the positional binary form of section 6);
  \<open>serializer/convertor/convertor.hpp\<close> and \<open>serializer/serializer.hpp\<close> are not
  among the sources. A length prefix is a native word, eight bytes, least significant
  first.
\<close>

fun le_bytes :: "nat \<Rightarrow> nat \<Rightarrow> byte list" where
  "le_bytes 0 n = []"
| "le_bytes (Suc k) n = of_nat (n mod 256) # le_bytes k (n div 256)"

fun le_nat :: "byte list \<Rightarrow> nat" where
  "le_nat [] = 0"
| "le_nat (b # bs) = unat b + 256 * le_nat bs"

definition size_bytes :: "nat \<Rightarrow> byte list" where
  "size_bytes n = le_bytes 8 n"

text \<open>
  Raw aggregate: the bytes of the object as they are. String: length prefix, then the
  bytes. Fixed-size container: the elements in index order, no length. Variable-size
  container: length prefix, then the elements in order. Owned pointer: a presence flag,
  then the pointee when there is one. Nested object: its attributes in order, with no
  framing.
\<close>

fun encode :: "val \<Rightarrow> byte list" where
  "encode (VRaw bs) = bs"
| "encode (VStr cs) = size_bytes (length cs) @ cs"
| "encode (VArr vs) = concat (map encode vs)"
| "encode (VVec vs) = size_bytes (length vs) @ concat (map encode vs)"
| "encode (VPtr None) = [0]"
| "encode (VPtr (Some v)) = 1 # encode v"
| "encode (VObj vs) = concat (map encode vs)"

text \<open>
  Decoding, by the static type, returns the value and the rest of the source, or
  \<open>None\<close> when a read asks for more bytes than remain.
\<close>

function decode :: "ty \<Rightarrow> byte list \<Rightarrow> (val \<times> byte list) option"
  and decode_n :: "nat \<Rightarrow> ty \<Rightarrow> byte list \<Rightarrow> (val list \<times> byte list) option"
  and decode_fields :: "ty list \<Rightarrow> byte list \<Rightarrow> (val list \<times> byte list) option" where
  "decode (TRaw n) bs =
     (if length bs < n then None else Some (VRaw (take n bs), drop n bs))"
| "decode TString bs =
     (if length bs < 8 then None
      else (let n = le_nat (take 8 bs); r = drop 8 bs
            in if length r < n then None else Some (VStr (take n r), drop n r)))"
| "decode (TArray n T) bs =
     (case decode_n n T bs of None \<Rightarrow> None | Some (vs, r) \<Rightarrow> Some (VArr vs, r))"
| "decode (TVec T) bs =
     (if length bs < 8 then None
      else (case decode_n (le_nat (take 8 bs)) T (drop 8 bs) of
              None \<Rightarrow> None
            | Some (vs, r) \<Rightarrow> Some (VVec vs, r)))"
| "decode (TPtr T) bs =
     (case bs of
        [] \<Rightarrow> None
      | flag # r \<Rightarrow>
          (if flag = 0 then Some (VPtr None, r)
           else (case decode T r of None \<Rightarrow> None | Some (v, r') \<Rightarrow> Some (VPtr (Some v), r'))))"
| "decode (TObj Ts) bs =
     (case decode_fields Ts bs of None \<Rightarrow> None | Some (vs, r) \<Rightarrow> Some (VObj vs, r))"
| "decode_n 0 T bs = Some ([], bs)"
| "decode_n (Suc k) T bs =
     (case decode T bs of
        None \<Rightarrow> None
      | Some (v, r) \<Rightarrow>
          (case decode_n k T r of None \<Rightarrow> None | Some (vs, r') \<Rightarrow> Some (v # vs, r')))"
| "decode_fields [] bs = Some ([], bs)"
| "decode_fields (T # Ts) bs =
     (case decode T bs of
        None \<Rightarrow> None
      | Some (v, r) \<Rightarrow>
          (case decode_fields Ts r of None \<Rightarrow> None | Some (vs, r') \<Rightarrow> Some (v # vs, r')))"
  by pat_completeness auto
termination
  by (relation "inv_image (less_than <*lex*> less_than)
        (\<lambda>x. case x of
            Inl (T, bs) \<Rightarrow> (2 * size T, 0)
          | Inr (Inl (k, T, bs)) \<Rightarrow> (2 * size T + 1, k)
          | Inr (Inr (Ts, bs)) \<Rightarrow> (2 * size_list size Ts + 1, 0))") auto

text \<open>
  The values of a type. The lengths of strings and of containers fit into a native word.
\<close>

fun has_ty :: "val \<Rightarrow> ty \<Rightarrow> bool" where
  "has_ty (VRaw bs) (TRaw n) = (length bs = n)"
| "has_ty (VStr cs) TString = (length cs < 2 ^ 64)"
| "has_ty (VArr vs) (TArray n T) = (length vs = n \<and> list_all (\<lambda>v. has_ty v T) vs)"
| "has_ty (VVec vs) (TVec T) = (length vs < 2 ^ 64 \<and> list_all (\<lambda>v. has_ty v T) vs)"
| "has_ty (VPtr None) (TPtr T) = True"
| "has_ty (VPtr (Some v)) (TPtr T) = has_ty v T"
| "has_ty (VObj vs) (TObj Ts) = list_all2 has_ty vs Ts"
| "has_ty _ _ = False"


section \<open>The attribute container (field-descriptor chain)\<close>

text \<open>
  The storage of the host object's attributes, which the nodes of a chain refer to by
  \<open>H &reference\<close>: a store from attribute slots to what the attribute holds now. An
  attribute of pointer type holds an address or \<open>nullptr\<close> (\<open>None\<close>); any other
  attribute holds its value. The free store is a list of cells, a cell being a live
  allocation with its pointee or \<open>None\<close> once deleted; \<open>new\<close> takes the next cell.
\<close>

datatype field = Ptr "nat option" | Val val

type_synonym free_store = "val option list"

record state =
  attrs :: "nat \<Rightarrow> field"
  heap :: free_store

definition live :: "free_store \<Rightarrow> nat \<Rightarrow> bool" where
  "live h a \<longleftrightarrow> a < length h \<and> h ! a \<noteq> None"

text \<open>\<open>delete p\<close> for a non-null \<open>p\<close>: ends the allocation, which has to be live.\<close>

definition delete :: "nat \<Rightarrow> free_store \<Rightarrow> free_store outcome" where
  "delete a h = (if live h a then Returned (h[a := None]) else Raised InvalidFree)"

text \<open>\<open>new T(v)\<close>: the address of a cell that was never used, now holding \<open>v\<close>.\<close>

definition new :: "val \<Rightarrow> free_store \<Rightarrow> nat \<times> free_store" where
  "new v h = (length h, h @ [Some v])"

text \<open>
  The template parameter \<open>Conv\<close>. Its class is not among the sources, so the chain
  takes it as a parameter: \<open>conv_serialize\<close> is \<open>convertor.serialize(reference, str)\<close>,
  which appends to \<open>str\<close>; \<open>conv_deserialize\<close> is
  \<open>convertor.deserialize(str, reference)\<close>, which is given the view and the current
  content of the attribute, may allocate, advances the view, and returns the new
  content of the attribute or throws.
\<close>

record Convertor =
  conv_serialize :: "ty \<Rightarrow> field \<Rightarrow> free_store \<Rightarrow> std_string \<Rightarrow> std_string"
  conv_deserialize ::
    "ty \<Rightarrow> std_string \<Rightarrow> field \<Rightarrow> free_store \<Rightarrow> field outcome \<times> std_string \<times> free_store"

text \<open>
  \<open>AttrContainer<Conv, Types...>\<close>: \<open>Empty\<close> is the primary template (no types),
  \<open>Node\<close> the specialization for \<open>H, Types...\<close> with its static type \<open>H\<close>, the slot
  \<open>reference\<close> is bound to, the identifier \<open>name\<close> and the rest of the chain.
\<close>

datatype AttrContainer =
    Empty
  | Node ty nat string AttrContainer  \<comment> \<open>\<open>H\<close>, \<open>reference\<close>, \<open>name\<close>, \<open>next\<close>\<close>

text \<open>
  \<open>serialize(std::string &str)\<close>: the convertor appends the attribute to \<open>str\<close>, the rest
  of the chain follows when there is one, and \<open>str\<close> is returned (the string the caller
  passed by reference holds the same content).
\<close>

fun AttrContainer_serialize :: "Convertor \<Rightarrow> state \<Rightarrow> AttrContainer \<Rightarrow> std_string \<Rightarrow> std_string" where
  "AttrContainer_serialize conv s Empty str = str"
| "AttrContainer_serialize conv s (Node H r nm nxt) str =
     (let str1 = conv_serialize conv H (attrs s r) (heap s) str
      in (case nxt of
            Empty \<Rightarrow> str1
          | Node _ _ _ _ \<Rightarrow> AttrContainer_serialize conv s nxt str1))"

text \<open>
  The first statement of \<open>deserialize\<close>: for a pointer type, a non-null attribute is
  deleted and set to \<open>nullptr\<close>.
\<close>

definition release :: "ty \<Rightarrow> nat \<Rightarrow> state \<Rightarrow> state outcome" where
  "release H r s =
     (if is_pointer_v H then
        (case attrs s r of
           Ptr (Some a) \<Rightarrow>
             (case delete a (heap s) of
                Raised e \<Rightarrow> Raised e
              | Returned h \<Rightarrow> Returned (s\<lparr>attrs := (attrs s)(r := Ptr None), heap := h\<rparr>))
         | _ \<Rightarrow> Returned s)
      else Returned s)"

text \<open>
  \<open>deserialize(std::string_view &str)\<close>: release, then assign what the convertor
  returns, then the rest of the chain. The result carries the view and the state as they
  are when the call returns or when the exception leaves it.
\<close>

fun AttrContainer_deserialize ::
  "Convertor \<Rightarrow> AttrContainer \<Rightarrow> std_string \<times> state \<Rightarrow> unit outcome \<times> std_string \<times> state" where
  "AttrContainer_deserialize conv Empty (str, s) = (Returned (), str, s)"
| "AttrContainer_deserialize conv (Node H r nm nxt) (str, s) =
     (case release H r s of
        Raised e \<Rightarrow> (Raised e, str, s)
      | Returned s1 \<Rightarrow>
          (case conv_deserialize conv H str (attrs s1 r) (heap s1) of
             (Raised e, str', h') \<Rightarrow> (Raised e, str', s1\<lparr>heap := h'\<rparr>)
           | (Returned v, str', h') \<Rightarrow>
               AttrContainer_deserialize conv nxt
                 (str', s1\<lparr>attrs := (attrs s1)(r := v), heap := h'\<rparr>)))"

text \<open>
  The types and the slots of a chain, in the order of its nodes, and the chain of a
  list of nodes (what the constructor builds from the references it is given).
\<close>

fun types :: "AttrContainer \<Rightarrow> ty list" where
  "types Empty = []"
| "types (Node H r nm nxt) = H # types nxt"

fun slots :: "AttrContainer \<Rightarrow> nat list" where
  "slots Empty = []"
| "slots (Node H r nm nxt) = r # slots nxt"


text \<open>
  The state of the pointer attributes in the slots \<open>rs\<close>: none dangles, and no two of
  them own the same allocation.
\<close>

definition owned_live :: "nat list \<Rightarrow> state \<Rightarrow> bool" where
  "owned_live rs s \<longleftrightarrow>
     (\<forall>r\<in>set rs. case attrs s r of Ptr (Some a) \<Rightarrow> live (heap s) a | _ \<Rightarrow> True)"

definition unshared :: "nat list \<Rightarrow> state \<Rightarrow> bool" where
  "unshared rs s \<longleftrightarrow>
     (\<forall>r\<in>set rs. \<forall>r'\<in>set rs.
        case attrs s r of Ptr (Some a) \<Rightarrow> attrs s r' = Ptr (Some a) \<longrightarrow> r' = r | _ \<Rightarrow> True)"

text \<open>
  What the chain needs of a convertor to keep that state: called on anything but a
  non-null pointer attribute of pointer type, it ends no allocation, and a non-null
  pointer it returns is a new, live allocation.
\<close>

definition allocates_only :: "Convertor \<Rightarrow> bool" where
  "allocates_only conv \<longleftrightarrow>
     (\<forall>H str f h.
        (is_pointer_v H \<longrightarrow> (\<forall>a. f \<noteq> Ptr (Some a))) \<longrightarrow>
        (case conv_deserialize conv H str f h of
           (out, str', h') \<Rightarrow>
             (\<forall>a. live h a \<longrightarrow> live h' a) \<and>
             (case out of
                Returned (Ptr (Some a)) \<Rightarrow> live h' a \<and> \<not> live h a
              | _ \<Rightarrow> True)))"

section \<open>The convertor of the specification\<close>

text \<open>
  What an attribute holds, as a value: a pointer attribute is what it owns (a pointer
  to a cell that is not live owns nothing).
\<close>

definition field_val :: "free_store \<Rightarrow> field \<Rightarrow> val" where
  "field_val h f =
     (case f of
        Val v \<Rightarrow> v
      | Ptr None \<Rightarrow> VPtr None
      | Ptr (Some a) \<Rightarrow> VPtr (if a < length h then h ! a else None))"

fun default_val :: "ty \<Rightarrow> val" where
  "default_val (TRaw n) = VRaw (replicate n 0)"
| "default_val TString = VStr []"
| "default_val (TArray n T) = VArr (replicate n (default_val T))"
| "default_val (TVec T) = VVec []"
| "default_val (TPtr T) = VPtr None"
| "default_val (TObj Ts) = VObj (map default_val Ts)"

definition destroy :: "field \<Rightarrow> free_store \<Rightarrow> free_store outcome" where
  "destroy f h = (case f of Ptr (Some a) \<Rightarrow> delete a h | _ \<Rightarrow> Returned h)"

text \<open>
  Modelled from the spec: the convertor (section 4.2;
  \<open>serializer/convertor/convertor.hpp\<close> is not among the sources). Encoding appends
  the encoding of what the attribute holds. Decoding an owned pointer reads the flag;
  it destroys any value the attribute still owns; when the pointee is present it
  allocates a default-constructed value, decodes into it and returns its address, and
  when it is absent it returns null. Decoding any other type decodes the value. A
  read past the end throws \<open>OutOfRange\<close>.
\<close>

definition spec_serialize :: "ty \<Rightarrow> field \<Rightarrow> free_store \<Rightarrow> std_string \<Rightarrow> std_string" where
  "spec_serialize H f h str = str @ encode (field_val h f)"

definition spec_deserialize ::
  "ty \<Rightarrow> std_string \<Rightarrow> field \<Rightarrow> free_store \<Rightarrow> field outcome \<times> std_string \<times> free_store" where
  "spec_deserialize H str f h =
     (case H of
        TPtr T \<Rightarrow>
          (case str of
             [] \<Rightarrow> (Raised OutOfRange, str, h)
           | flag # r \<Rightarrow>
               (case destroy f h of
                  Raised e \<Rightarrow> (Raised e, r, h)
                | Returned h1 \<Rightarrow>
                    (if flag = 0 then (Returned (Ptr None), r, h1)
                     else (case new (default_val T) h1 of
                             (a, h2) \<Rightarrow>
                               (case decode T r of
                                  None \<Rightarrow> (Raised OutOfRange, r, h2)
                                | Some (v, r') \<Rightarrow>
                                    (Returned (Ptr (Some a)), r', h2[a := Some v]))))))
      | _ \<Rightarrow>
          (case decode H str of
             None \<Rightarrow> (Raised OutOfRange, str, h)
           | Some (v, r) \<Rightarrow> (Returned (Val v), r, h)))"

definition SpecConvertor :: Convertor where
  "SpecConvertor = \<lparr>conv_serialize = spec_serialize, conv_deserialize = spec_deserialize\<rparr>"

text \<open>A state for the examples: slot 0 owns the only allocation, every other slot is null.\<close>

definition one_owner :: state where
  "one_owner = \<lparr>attrs = (\<lambda>r. if r = 0 then Ptr (Some 0) else Ptr None), heap = [Some (VRaw [1])]\<rparr>"

text \<open>
  More examples: the rows \<open>[[1, 2], [3]]\<close> of one-byte elements; a chain of a pointer
  attribute and a string attribute; and a state in which slot 0 owns a cell holding 7
  and the other slots hold the string \<open>AB\<close>.
\<close>

definition rows :: val where
  "rows = VVec [VVec [VRaw [1], VRaw [2]], VVec [VRaw [3]]]"

definition two_nodes :: AttrContainer where
  "two_nodes = Node (TPtr (TRaw 1)) 0 ''p'' (Node TString 1 ''q'' Empty)"

definition two_attrs :: state where
  "two_attrs = \<lparr>attrs = (\<lambda>r. if r = 0 then Ptr (Some 0) else Val (VStr [65, 66])),
                heap = [Some (VRaw [7])]\<rparr>"

section \<open>Buffer and cursor\<close>

text \<open>
  The object \<open>Serializer<mem_t> serializer(mem, pos)\<close>: the buffer it is bound to by
  reference and its public cursor \<open>pos\<close>. The record is extended below with the
  variables of the caller.
\<close>

record Serializer =
  mem :: "byte list"
  pos :: size_t

text \<open>
  Modelled from the spec: \<open>Serializer::append(bytes, nb_bytes)\<close>, the write of the
  buffer/cursor contract of section 4.1 (\<open>serializer/serializer.hpp\<close> is not among
  the sources): the bytes are stored at the current position, the storage grows as far
  as they need (new cells are zero), and the position advances by their number.
\<close>

definition store_at :: "nat \<Rightarrow> byte list \<Rightarrow> byte list \<Rightarrow> byte list" where
  "store_at p bs m = take p (m @ replicate (p - length m) 0) @ bs @ drop (p + length bs) m"

definition append :: "byte list \<Rightarrow> 'a Serializer_scheme \<Rightarrow> 'a Serializer_scheme" where
  "append bs s = s\<lparr>mem := store_at (unat (pos s)) bs (mem s), pos := pos s + of_nat (length bs)\<rparr>"

section \<open>The struct fast path\<close>















section \<open>The traversal: serialize and deserialize\<close>

text \<open>
  What the operations of a strategy and the callables act on: the serializer object
  (the buffer it refers to and its cursor) and the variables of the caller that the
  arguments refer to.
\<close>

record 'e frame = Serializer +
  vars :: 'e

datatype Phases = Serialization | Deserialization

text \<open>
  The template parameter \<open>Ser\<close>, by the two operations the traversal calls on it. An
  argument of the pack is passed by reference in both directions, so both operations
  take the same kind of argument. Each may throw. \<open>serialize_op\<close> and
  \<open>deserialize_op\<close> are the members \<open>serialize_\<close> and \<open>deserialize_\<close>.
\<close>

record ('a, 'e) Ser =
  serialize_op :: "'a \<Rightarrow> 'e frame \<Rightarrow> unit outcome \<times> 'e frame"
  deserialize_op :: "'a \<Rightarrow> 'e frame \<Rightarrow> unit outcome \<times> 'e frame"

text \<open>
  \<open>tools::Context<Phase, Ser>(serializer)\<close>: the phase tag and the serializer the
  callable is to use.
\<close>

record ('a, 'e) Context =
  phase :: Phases
  serializer :: "('a, 'e) Ser"

text \<open>
  An argument of the pack: one for which \<open>SerializerFunction(args, serializer)\<close> holds,
  a callable that takes a context, or any other argument.
\<close>

datatype ('a, 'e) argument =
    Function "('a, 'e) Context \<Rightarrow> 'e frame \<Rightarrow> unit outcome \<times> 'e frame"
  | Plain 'a

text \<open>
  The two properties of \<open>mem_t\<close> that \<open>serialize\<close> tests: whether it is the library's
  own \<open>tools::Bytes\<close> (\<open>mtf::is_serializer_bytes_v\<close>) and whether it satisfies the
  concept \<open>concepts::Resizeable\<close>, whose definition is not among the sources.
\<close>

record mem_t =
  is_serializer_bytes_v :: bool
  Resizeable :: bool

text \<open>\<open>mem.resize(n)\<close>: cut to \<open>n\<close> cells, or filled up to \<open>n\<close> cells with zeros.\<close>

definition resize :: "nat \<Rightarrow> byte list \<Rightarrow> byte list" where
  "resize n m = take n m @ replicate (n - length m) 0"

text \<open>
  The fold expression of \<open>serialize\<close> over the pack, one lambda call per argument, in
  the order of the pack; an exception ends it.
\<close>

fun serialize_pack ::
  "('a, 'e) Ser \<Rightarrow> ('a, 'e) argument list \<Rightarrow> 'e frame \<Rightarrow> unit outcome \<times> 'e frame" where
  "serialize_pack S [] s = (Returned (), s)"
| "serialize_pack S (arg # args) s =
     (case (case arg of
              Function f \<Rightarrow> f \<lparr>phase = Serialization, serializer = S\<rparr> s
            | Plain a \<Rightarrow> serialize_op S a s) of
        (Raised e, s') \<Rightarrow> (Raised e, s')
      | (Returned _, s') \<Rightarrow> serialize_pack S args s')"

text \<open>
  \<open>serialize<Ser>(mem, pos, args...)\<close>, with the variables of the caller. The result is
  the returned position, or the exception, and the frame the call leaves.
\<close>

definition serialize ::
  "mem_t \<Rightarrow> ('a, 'e) Ser \<Rightarrow> byte list \<Rightarrow> size_t \<Rightarrow> 'e \<Rightarrow> ('a, 'e) argument list
     \<Rightarrow> size_t outcome \<times> 'e frame" where
  "serialize mt S m p e args =
     (let first_level = (p = 0);
          serializer = \<lparr>mem = m, pos = p, vars = e\<rparr>
      in (case serialize_pack S args serializer of
            (Raised err, s) \<Rightarrow> (Raised err, s)
          | (Returned _, s) \<Rightarrow>
              (let s' = (if \<not> is_serializer_bytes_v mt \<and> Resizeable mt
                         then (if first_level then s\<lparr>mem := resize (unat (pos s)) (mem s)\<rparr> else s)
                         else s)
               in (Returned (pos s'), s'))))"

text \<open>The fold expression of \<open>deserialize\<close>.\<close>

fun deserialize_pack ::
  "('a, 'e) Ser \<Rightarrow> ('a, 'e) argument list \<Rightarrow> 'e frame \<Rightarrow> unit outcome \<times> 'e frame" where
  "deserialize_pack S [] s = (Returned (), s)"
| "deserialize_pack S (arg # args) s =
     (case (case arg of
              Function f \<Rightarrow> f \<lparr>phase = Deserialization, serializer = S\<rparr> s
            | Plain a \<Rightarrow> deserialize_op S a s) of
        (Raised e, s') \<Rightarrow> (Raised e, s')
      | (Returned _, s') \<Rightarrow> deserialize_pack S args s')"

text \<open>\<open>deserialize<Ser>(mem, pos, args...)\<close>.\<close>

definition deserialize ::
  "('a, 'e) Ser \<Rightarrow> byte list \<Rightarrow> size_t \<Rightarrow> 'e \<Rightarrow> ('a, 'e) argument list
     \<Rightarrow> size_t outcome \<times> 'e frame" where
  "deserialize S m p e args =
     (let serializer = \<lparr>mem = m, pos = p, vars = e\<rparr>
      in (case deserialize_pack S args serializer of
            (Raised err, s) \<Rightarrow> (Raised err, s)
          | (Returned _, s) \<Rightarrow> (Returned (pos s), s)))"

text \<open>
  The traversal in the words of the specification (section 4.4, step 2): one step per
  argument, which invokes a phase-aware callable with a context that carries the phase
  tag and the bound strategy, and otherwise dispatches to the strategy's operation of
  that phase; the steps are folded over the argument list from the left, and a failure
  ends the traversal.
\<close>

definition spec_step ::
  "Phases \<Rightarrow> ('a, 'e) Ser \<Rightarrow> ('a, 'e) argument \<Rightarrow> 'e frame \<Rightarrow> unit outcome \<times> 'e frame" where
  "spec_step ph S arg s =
     (case arg of
        Function f \<Rightarrow> f \<lparr>phase = ph, serializer = S\<rparr> s
      | Plain a \<Rightarrow>
          (case ph of
             Serialization \<Rightarrow> serialize_op S a s
           | Deserialization \<Rightarrow> deserialize_op S a s))"

definition spec_traversal ::
  "Phases \<Rightarrow> ('a, 'e) Ser \<Rightarrow> ('a, 'e) argument list \<Rightarrow> 'e frame \<Rightarrow> unit outcome \<times> 'e frame" where
  "spec_traversal ph S args s =
     foldl (\<lambda>r arg. case r of (Raised e, s') \<Rightarrow> (Raised e, s') | (Returned _, s') \<Rightarrow> spec_step ph S arg s')
       (Returned (), s) args"

section \<open>The strategy of the binary backend\<close>

text \<open>
  Modelled from the spec: the operations \<open>serialize_\<close> and \<open>deserialize_\<close> of the
  class \<open>Serializer\<close> (\<open>serializer/serializer.hpp\<close> is not among the sources), from
  sections 4.1 and 4.2. An argument is a variable of the caller, given with its static
  type. Encoding appends the encoded value of the variable at the cursor. Decoding
  reads at the cursor, fails with \<open>OutOfRange\<close> when fewer bytes remain than the value
  needs, and otherwise assigns the variable and advances the cursor by what it read.
\<close>

type_synonym variables = "nat \<Rightarrow> val"

definition binary_serialize :: "ty \<times> nat \<Rightarrow> variables frame \<Rightarrow> unit outcome \<times> variables frame" where
  "binary_serialize a s = (case a of (T, x) \<Rightarrow> (Returned (), append (encode (vars s x)) s))"

definition binary_deserialize :: "ty \<times> nat \<Rightarrow> variables frame \<Rightarrow> unit outcome \<times> variables frame" where
  "binary_deserialize a s =
     (case a of (T, x) \<Rightarrow>
        (let src = drop (unat (pos s)) (mem s)
         in (case decode T src of
               None \<Rightarrow> (Raised OutOfRange, s)
             | Some (v, r) \<Rightarrow>
                 (Returned (),
                  s\<lparr>pos := pos s + of_nat (length src - length r), vars := (vars s)(x := v)\<rparr>))))"

definition Binary :: "(ty \<times> nat, variables) Ser" where
  "Binary = \<lparr>serialize_op = binary_serialize, deserialize_op = binary_deserialize\<rparr>"

text \<open>Two buffer types and an environment for the examples.\<close>

definition vector_t :: mem_t where
  "vector_t = \<lparr>is_serializer_bytes_v = False, Resizeable = True\<rparr>"

definition bytes_t :: mem_t where
  "bytes_t = \<lparr>is_serializer_bytes_v = True, Resizeable = True\<rparr>"

definition sevens :: variables where
  "sevens x = VRaw [7]"

text \<open>
  The record of a list of arguments: their encodings one after the other. And the
  variables after all of them were assigned from \<open>e\<close>.
\<close>

definition record_of :: "variables \<Rightarrow> (ty \<times> nat) list \<Rightarrow> byte list" where
  "record_of e as = concat (map (\<lambda>a. encode (e (snd a))) as)"

definition assigned :: "variables \<Rightarrow> (ty \<times> nat) list \<Rightarrow> variables \<Rightarrow> variables" where
  "assigned e as e0 = foldl (\<lambda>v a. v(snd a := e (snd a))) e0 as"

definition seven_and_AB :: variables where
  "seven_and_AB x = (if x = 0 then VRaw [7] else VStr [65, 66])"

section \<open>Properties\<close>

subsection \<open>Writing into the buffer\<close>

lemma length_store_at: "length (store_at p bs m) = max (length m) (p + length bs)"
  by (auto simp: store_at_def)










subsection \<open>Decoding what was encoded\<close>

lemma length_le_bytes: "length (le_bytes k n) = k"
  by (induction k arbitrary: n) simp_all

lemma le_nat_le_bytes: "n < 256 ^ k \<Longrightarrow> le_nat (le_bytes k n) = n"
proof (induction k arbitrary: n)
  case 0
  then show ?case by simp
next
  case (Suc k)
  have "n div 256 < 256 ^ k"
    using Suc.prems by (simp add: less_mult_imp_div_less mult.commute)
  then have "le_nat (le_bytes k (n div 256)) = n div 256" by (rule Suc.IH)
  moreover have "unat (of_nat (n mod 256) :: byte) = n mod 256"
    by (simp add: unat_of_nat)
  ultimately show ?case by simp
qed

lemma length_size_bytes: "length (size_bytes n) = 8"
  by (simp add: size_bytes_def length_le_bytes)

lemma le_nat_size_bytes: "n < 2 ^ 64 \<Longrightarrow> le_nat (size_bytes n) = n"
  unfolding size_bytes_def by (rule le_nat_le_bytes) simp

lemma decode_encode_all:
  "(\<forall>v r. has_ty v T \<longrightarrow> bs = encode v @ r \<longrightarrow> decode T bs = Some (v, r))"
  "(\<forall>vs r. length vs = k \<longrightarrow> list_all (\<lambda>v. has_ty v T') vs \<longrightarrow> bs' = concat (map encode vs) @ r
       \<longrightarrow> decode_n k T' bs' = Some (vs, r))"
  "(\<forall>vs r. list_all2 has_ty vs Ts \<longrightarrow> bs'' = concat (map encode vs) @ r
       \<longrightarrow> decode_fields Ts bs'' = Some (vs, r))"
proof (induction T bs and k T' bs' and Ts bs'' rule: decode_decode_n_decode_fields.induct)
  case (1 n bs)
  show ?case
  proof (intro allI impI)
    fix v r assume "has_ty v (TRaw n)" "bs = encode v @ r"
    then show "decode (TRaw n) bs = Some (v, r)" by (cases v) auto
  qed
next
  case (2 bs)
  show ?case
  proof (intro allI impI)
    fix v r assume h: "has_ty v TString" "bs = encode v @ r"
    then obtain cs where v: "v = VStr cs" and len: "length cs < 2 ^ 64" by (cases v) auto
    from h v have bs: "bs = size_bytes (length cs) @ cs @ r" by simp
    show "decode TString bs = Some (v, r)"
      by (simp add: bs v length_size_bytes le_nat_size_bytes [OF len])
  qed
next
  case (3 n T bs)
  show ?case
  proof (intro allI impI)
    fix v r assume h: "has_ty v (TArray n T)" "bs = encode v @ r"
    then obtain vs where v: "v = VArr vs" and "length vs = n" "list_all (\<lambda>v. has_ty v T) vs"
      by (cases v) auto
    with 3 h show "decode (TArray n T) bs = Some (v, r)" by simp
  qed
next
  case (4 T bs)
  show ?case
  proof (intro allI impI)
    fix v r assume h: "has_ty v (TVec T)" "bs = encode v @ r"
    then obtain vs where v: "v = VVec vs" and len: "length vs < 2 ^ 64"
      and tys: "list_all (\<lambda>v. has_ty v T) vs"
      by (cases v) auto
    from h v have bs: "bs = size_bytes (length vs) @ concat (map encode vs) @ r" by simp
    have nlt: "\<not> length bs < 8" by (simp add: bs length_size_bytes)
    have n: "le_nat (take 8 bs) = length vs"
      by (simp add: bs length_size_bytes le_nat_size_bytes [OF len])
    have d: "drop 8 bs = concat (map encode vs) @ r"
      by (simp add: bs length_size_bytes)
    from 4 [OF nlt] n d tys have "decode_n (length vs) T (drop 8 bs) = Some (vs, r)"
      by simp
    then show "decode (TVec T) bs = Some (v, r)"
      using nlt n by (simp add: v)
  qed
next
  case (5 T bs)
  show ?case
  proof (intro allI impI)
    fix v r assume h: "has_ty v (TPtr T)" "bs = encode v @ r"
    then obtain p where v: "v = VPtr p" by (cases v) auto
    show "decode (TPtr T) bs = Some (v, r)"
    proof (cases p)
      case None
      with h v show ?thesis by simp
    next
      case (Some w)
      with h v have bs: "bs = 1 # encode w @ r" and w: "has_ty w T" by simp_all
      from 5 [of 1 "encode w @ r"] bs w have "decode T (encode w @ r) = Some (w, r)" by simp
      then show ?thesis by (simp add: bs v Some)
    qed
  qed
next
  case (6 Ts bs)
  show ?case
  proof (intro allI impI)
    fix v r assume h: "has_ty v (TObj Ts)" "bs = encode v @ r"
    then obtain vs where v: "v = VObj vs" and "list_all2 has_ty vs Ts" by (cases v) auto
    with 6 h show "decode (TObj Ts) bs = Some (v, r)" by simp
  qed
next
  case (7 T bs)
  show ?case by simp
next
  case (8 k T bs)
  show ?case
  proof (intro allI impI)
    fix vs r
    assume h: "length vs = Suc k" "list_all (\<lambda>v. has_ty v T) vs" "bs = concat (map encode vs) @ r"
    then obtain v ws where vs: "vs = v # ws" by (cases vs) auto
    with h have v: "has_ty v T" and ws: "length ws = k" "list_all (\<lambda>v. has_ty v T) ws"
      and bs: "bs = encode v @ concat (map encode ws) @ r" by simp_all
    from 8(1) v bs have d1: "decode T bs = Some (v, concat (map encode ws) @ r)" by simp
    from 8(2) [OF d1 refl] ws
    have "decode_n k T (concat (map encode ws) @ r) = Some (ws, r)" by simp
    with d1 show "decode_n (Suc k) T bs = Some (vs, r)" by (simp add: vs)
  qed
next
  case (9 bs)
  show ?case by simp
next
  case (10 T Ts bs)
  show ?case
  proof (intro allI impI)
    fix vs r
    assume h: "list_all2 has_ty vs (T # Ts)" "bs = concat (map encode vs) @ r"
    then obtain v ws where vs: "vs = v # ws" and v: "has_ty v T" and ws: "list_all2 has_ty ws Ts"
      by (auto simp: list_all2_Cons2)
    with h have bs: "bs = encode v @ concat (map encode ws) @ r" by simp
    from 10(1) v bs have d1: "decode T bs = Some (v, concat (map encode ws) @ r)" by simp
    from 10(2) [OF d1 refl] ws
    have "decode_fields Ts (concat (map encode ws) @ r) = Some (ws, r)" by simp
    with d1 show "decode_fields (T # Ts) bs = Some (vs, r)" by (simp add: vs)
  qed
qed

lemma decode_encode: "has_ty v T \<Longrightarrow> decode T (encode v @ r) = Some (v, r)"
  using decode_encode_all(1) by blast

lemma decode_fields_encode:
  "list_all2 has_ty vs Ts \<Longrightarrow> decode_fields Ts (concat (map encode vs) @ r) = Some (vs, r)"
  using decode_encode_all(3) by blast

subsection \<open>The fold of the specification\<close>

lemma foldl_raised:
  "foldl (\<lambda>r arg. case r of (Raised e, s') \<Rightarrow> (Raised e, s') | (Returned _, s') \<Rightarrow> g arg s')
     (Raised e, s) args = (Raised e, s)"
  by (induction args) simp_all

lemma spec_traversal_Cons:
  "spec_traversal ph S (arg # args) s =
     (case spec_step ph S arg s of
        (Raised e, s') \<Rightarrow> (Raised e, s')
      | (Returned _, s') \<Rightarrow> spec_traversal ph S args s')"
proof (cases "spec_step ph S arg s")
  case (Pair r s')
  then show ?thesis
    by (cases r) (simp_all add: spec_traversal_def foldl_raised)
qed

lemma serialize_pack_spec: "serialize_pack S args s = spec_traversal Serialization S args s"
proof (induction args arbitrary: s)
  case Nil
  show ?case by (simp add: spec_traversal_def)
next
  case (Cons arg args)
  have "spec_step Serialization S arg s =
      (case arg of Function f \<Rightarrow> f \<lparr>phase = Serialization, serializer = S\<rparr> s
                 | Plain a \<Rightarrow> serialize_op S a s)"
    by (cases arg) (simp_all add: spec_step_def)
  then show ?case
    by (simp add: spec_traversal_Cons Cons.IH split: prod.splits outcome.splits)
qed

lemma deserialize_pack_spec: "deserialize_pack S args s = spec_traversal Deserialization S args s"
proof (induction args arbitrary: s)
  case Nil
  show ?case by (simp add: spec_traversal_def)
next
  case (Cons arg args)
  have "spec_step Deserialization S arg s =
      (case arg of Function f \<Rightarrow> f \<lparr>phase = Deserialization, serializer = S\<rparr> s
                 | Plain a \<Rightarrow> deserialize_op S a s)"
    by (cases arg) (simp_all add: spec_step_def)
  then show ?case
    by (simp add: spec_traversal_Cons Cons.IH split: prod.splits outcome.splits)
qed

lemma frame_eta: "\<lparr>mem = mem s, pos = pos s, vars = vars s\<rparr> = (s :: 'e frame)"
  by (cases s) simp

lemma serialize_pack_append:
  "serialize_pack S (xs @ ys) s =
     (case serialize_pack S xs s of
        (Raised e, s') \<Rightarrow> (Raised e, s')
      | (Returned u, s') \<Rightarrow> serialize_pack S ys s')"
  by (induction xs arbitrary: s) (simp_all split: prod.splits outcome.splits)

lemma deserialize_pack_append:
  "deserialize_pack S (xs @ ys) s =
     (case deserialize_pack S xs s of
        (Raised e, s') \<Rightarrow> (Raised e, s')
      | (Returned u, s') \<Rightarrow> deserialize_pack S ys s')"
  by (induction xs arbitrary: s) (simp_all split: prod.splits outcome.splits)

subsection \<open>The binary strategy\<close>

lemma binary_deserialize_mem: "mem (snd (binary_deserialize a s)) = mem s"
  by (cases a) (simp add: binary_deserialize_def Let_def split: option.splits)

lemma deserialize_pack_Binary_mem:
  "mem (snd (deserialize_pack Binary (map Plain as) s)) = mem s"
proof (induction as arbitrary: s)
  case Nil
  show ?case by simp
next
  case (Cons a as)
  obtain r s' where step: "binary_deserialize a s = (r, s')" by (cases "binary_deserialize a s")
  with binary_deserialize_mem [of a s] have m: "mem s' = mem s" by simp
  show ?case
  proof (cases r)
    case (Returned u)
    with step Cons.IH [of s'] m show ?thesis by (simp add: Binary_def)
  next
    case (Raised err)
    with step m show ?thesis by (simp add: Binary_def)
  qed
qed

lemma deserialize_frame:
  "snd (deserialize S m p e args) = snd (deserialize_pack S args \<lparr>mem = m, pos = p, vars = e\<rparr>)"
  by (simp add: deserialize_def split: prod.splits outcome.splits)

lemma pack_sevens_0:
  "serialize_pack Binary [Plain (TRaw 1, 0)] \<lparr>mem = [9, 9, 9, 9], pos = 0, vars = sevens\<rparr> =
     (Returned (), \<lparr>mem = [7, 9, 9, 9], pos = 1, vars = sevens\<rparr>)"
  by (simp add: Binary_def binary_serialize_def append_def sevens_def store_at_def)

lemma pack_sevens_1:
  "serialize_pack Binary [Plain (TRaw 1, 0)] \<lparr>mem = [9, 9, 9, 9], pos = 1, vars = sevens\<rparr> =
     (Returned (), \<lparr>mem = [9, 7, 9, 9], pos = 2, vars = sevens\<rparr>)"
  by (simp add: Binary_def binary_serialize_def append_def sevens_def store_at_def)

subsection \<open>Records of the binary strategy\<close>

lemma store_at_store_at:
  "store_at (p + length a) b (store_at p a m) = store_at p (a @ b) m"
proof -
  let ?pre = "take p (m @ replicate (p - length m) 0)"
  have lp: "length ?pre = p" by simp
  have s1: "store_at p a m = ?pre @ a @ drop (p + length a) m" by (simp add: store_at_def)
  have t: "take (p + length a) (store_at p a m @ replicate (p + length a - length (store_at p a m)) 0)
      = ?pre @ a"
    using lp by (simp add: s1)
  have d: "drop (p + length a + length b) (store_at p a m) = drop (p + length a + length b) m"
    using lp by (simp add: s1 add.commute)
  show ?thesis
    unfolding store_at_def [of "p + length a" b] t d
    by (simp add: store_at_def add.assoc)
qed

lemma store_at_Nil: "p \<le> length m \<Longrightarrow> store_at p [] m = m"
  by (simp add: store_at_def)

lemma take_store_at: "take (p + length bs) (store_at p bs m) = take p (m @ replicate (p - length m) 0) @ bs"
  by (simp add: store_at_def)

lemma unat_advance:
  "unat (p :: size_t) + n < 2 ^ 64 \<Longrightarrow> unat (p + of_nat n) = unat p + n"
  by (simp add: unat_word_ariths unat_of_nat)


lemma record_of_Cons: "record_of e (a # as) = encode (e (snd a)) @ record_of e as"
  by (simp add: record_of_def)

lemma record_of_Nil: "record_of e [] = []"
  by (simp add: record_of_def)

lemma serialize_pack_Binary:
  "unat (pos s) \<le> length (mem s) \<Longrightarrow> unat (pos s) + length (record_of (vars s) as) < 2 ^ 64 \<Longrightarrow>
   serialize_pack Binary (map Plain as) s =
     (Returned (), s\<lparr>mem := store_at (unat (pos s)) (record_of (vars s) as) (mem s),
                      pos := pos s + of_nat (length (record_of (vars s) as))\<rparr>)"
proof (induction as arbitrary: s)
  case Nil
  then show ?case by (simp add: record_of_Nil store_at_Nil)
next
  case (Cons a as)
  let ?enc = "encode (vars s (snd a))"
  let ?s1 = "append ?enc s"
  have step: "serialize_op Binary a s = (Returned (), ?s1)"
    by (cases a) (simp add: Binary_def binary_serialize_def)
  have fits: "unat (pos s) + length ?enc < 2 ^ 64"
    using Cons.prems(2) by (simp add: record_of_Cons)
  have p1: "unat (pos ?s1) = unat (pos s) + length ?enc"
    using unat_advance [OF fits] by (simp add: append_def)
  have v1: "vars ?s1 = vars s" by (simp add: append_def)
  have m1: "mem ?s1 = store_at (unat (pos s)) ?enc (mem s)" by (simp add: append_def)
  have a1: "unat (pos ?s1) \<le> length (mem ?s1)"
    by (simp add: p1 m1 length_store_at)
  have a2: "unat (pos ?s1) + length (record_of (vars ?s1) as) < 2 ^ 64"
    using Cons.prems(2) by (simp add: p1 v1 record_of_Cons)
  have "serialize_pack Binary (map Plain (a # as)) s = serialize_pack Binary (map Plain as) ?s1"
    by (simp add: step)
  also have "\<dots> = (Returned (), ?s1\<lparr>mem := store_at (unat (pos ?s1)) (record_of (vars ?s1) as) (mem ?s1),
                      pos := pos ?s1 + of_nat (length (record_of (vars ?s1) as))\<rparr>)"
    by (rule Cons.IH [OF a1 a2])
  also have "\<dots> = (Returned (), s\<lparr>mem := store_at (unat (pos s)) (record_of (vars s) (a # as)) (mem s),
                      pos := pos s + of_nat (length (record_of (vars s) (a # as)))\<rparr>)"
    by (simp add: p1 v1 m1 store_at_store_at record_of_Cons) (simp add: append_def)
  finally show ?case .
qed

lemma assigned_at:
  "assigned e as e0 x = (if x \<in> snd ` set as then e x else e0 x)"
  unfolding assigned_def by (induction as arbitrary: e0) auto

lemma assigned_Cons: "assigned e (a # as) e0 = assigned e as (e0(snd a := e (snd a)))"
  by (simp add: assigned_def)

lemma deserialize_pack_Binary:
  "drop (unat (pos s)) (mem s) = record_of e as @ rest \<Longrightarrow>
   \<forall>a\<in>set as. has_ty (e (snd a)) (fst a) \<Longrightarrow>
   unat (pos s) + length (record_of e as) < 2 ^ 64 \<Longrightarrow>
   deserialize_pack Binary (map Plain as) s =
     (Returned (), s\<lparr>pos := pos s + of_nat (length (record_of e as)),
                      vars := assigned e as (vars s)\<rparr>)"
proof (induction as arbitrary: s)
  case Nil
  then show ?case by (simp add: record_of_Nil assigned_def)
next
  case (Cons a as)
  obtain T x where a: "a = (T, x)" by (cases a)
  let ?enc = "encode (e x)"
  let ?s1 = "s\<lparr>pos := pos s + of_nat (length ?enc), vars := (vars s)(x := e x)\<rparr>"
  have src: "drop (unat (pos s)) (mem s) = ?enc @ (record_of e as @ rest)"
    using Cons.prems(1) by (simp add: a record_of_Cons)
  have ty: "has_ty (e x) T" using Cons.prems(2) by (simp add: a)
  have dec: "decode T (drop (unat (pos s)) (mem s)) = Some (e x, record_of e as @ rest)"
    unfolding src by (rule decode_encode [OF ty])
  have consumed: "length (drop (unat (pos s)) (mem s)) - length (record_of e as @ rest) = length ?enc"
    unfolding src by simp
  have step: "deserialize_op Binary a s = (Returned (), ?s1)"
    by (simp add: a Binary_def binary_deserialize_def Let_def dec consumed del: length_drop length_append)
  have fits: "unat (pos s) + length ?enc < 2 ^ 64"
    using Cons.prems(3) by (simp add: a record_of_Cons)
  have p1: "unat (pos s + of_nat (length ?enc)) = unat (pos s) + length ?enc"
    by (rule unat_advance [OF fits])
  have a1: "drop (unat (pos ?s1)) (mem ?s1) = record_of e as @ rest"
  proof -
    have "drop (unat (pos ?s1)) (mem ?s1) = drop (length ?enc) (drop (unat (pos s)) (mem s))"
      by (simp add: p1 add.commute)
    then show ?thesis by (simp add: src)
  qed
  have a2: "\<forall>a\<in>set as. has_ty (e (snd a)) (fst a)" using Cons.prems(2) by simp
  have a3: "unat (pos ?s1) + length (record_of e as) < 2 ^ 64"
    using Cons.prems(3) by (simp add: p1 a record_of_Cons)
  have "deserialize_pack Binary (map Plain (a # as)) s = deserialize_pack Binary (map Plain as) ?s1"
    by (simp add: step)
  also have "\<dots> = (Returned (), ?s1\<lparr>pos := pos ?s1 + of_nat (length (record_of e as)),
                      vars := assigned e as (vars ?s1)\<rparr>)"
    by (rule Cons.IH [OF a1 a2 a3])
  also have "\<dots> = (Returned (), s\<lparr>pos := pos s + of_nat (length (record_of e (a # as))),
                      vars := assigned e (a # as) (vars s)\<rparr>)"
    by (simp add: a record_of_Cons assigned_Cons)
  finally show ?case .
qed


lemma serialize_Binary:
  assumes inside: "unat p \<le> length m"
    and fits: "unat p + length (record_of e as) < 2 ^ 64"
  shows "\<exists>M. serialize mt Binary m p e (map Plain as) =
            (Returned (p + of_nat (length (record_of e as))),
             \<lparr>mem = M, pos = p + of_nat (length (record_of e as)), vars = e\<rparr>) \<and>
          take (unat p + length (record_of e as)) M = take (unat p) m @ record_of e as"
proof -
  let ?A = "record_of e as"
  let ?q = "p + of_nat (length ?A)"
  let ?X = "store_at (unat p) ?A m"
  have pack: "serialize_pack Binary (map Plain as) \<lparr>mem = m, pos = p, vars = e\<rparr> =
      (Returned (), \<lparr>mem = ?X, pos = ?q, vars = e\<rparr>)"
    using serialize_pack_Binary [of "\<lparr>mem = m, pos = p, vars = e\<rparr>" as] inside fits by simp
  have q: "unat ?q = unat p + length ?A" by (rule unat_advance [OF fits])
  have tX: "take (unat p + length ?A) ?X = take (unat p) m @ ?A"
    using inside by (simp add: take_store_at)
  have lX: "unat p + length ?A \<le> length ?X" by (simp add: length_store_at)
  have tR: "take (unat p + length ?A) (resize (unat ?q) ?X) = take (unat p) m @ ?A"
    using lX tX by (simp add: resize_def q)
  show ?thesis
  proof (cases "\<not> is_serializer_bytes_v mt \<and> Resizeable mt \<and> p = 0")
    case True
    then have "serialize mt Binary m p e (map Plain as) =
        (Returned ?q, \<lparr>mem = resize (unat ?q) ?X, pos = ?q, vars = e\<rparr>)"
      unfolding serialize_def Let_def pack by simp
    with tR show ?thesis by blast
  next
    case False
    then have "serialize mt Binary m p e (map Plain as) =
        (Returned ?q, \<lparr>mem = ?X, pos = ?q, vars = e\<rparr>)"
      unfolding serialize_def Let_def pack by auto
    with tX show ?thesis by blast
  qed
qed

lemma deserialize_Binary:
  assumes src: "drop (unat p) m = record_of e as @ rest"
    and typed: "\<forall>a\<in>set as. has_ty (e (snd a)) (fst a)"
    and fits: "unat p + length (record_of e as) < 2 ^ 64"
  shows "deserialize Binary m p e0 (map Plain as) =
           (Returned (p + of_nat (length (record_of e as))),
            \<lparr>mem = m, pos = p + of_nat (length (record_of e as)), vars = assigned e as e0\<rparr>)"
  using deserialize_pack_Binary [of "\<lparr>mem = m, pos = p, vars = e0\<rparr>" e as rest] src typed fits
  by (simp add: deserialize_def)

lemma returns_final_position:
  "(case serialize mt S m p e args of (Returned q, s) \<Rightarrow> q = pos s | (Raised err, s) \<Rightarrow> True) \<and>
   (case deserialize S m p e args of (Returned q, s) \<Rightarrow> q = pos s | (Raised err, s) \<Rightarrow> True)"
  by (auto simp: serialize_def deserialize_def Let_def split: prod.splits outcome.splits)

lemma size_bytes_2: "size_bytes (Suc (Suc 0)) = [2, 0, 0, 0, 0, 0, 0, 0]"
  by code_simp
lemma record_seven: "record_of seven_and_AB [(TRaw 1, 0)] = [7]"
  by (simp add: record_of_def seven_and_AB_def)
lemma record_AB: "record_of seven_and_AB [(TString, 1)] = [2, 0, 0, 0, 0, 0, 0, 0, 65, 66]"
  by (simp add: record_of_def seven_and_AB_def size_bytes_2)
lemma serialize_seven:
  "serialize vector_t Binary [] 0 seven_and_AB (map Plain [(TRaw 1, 0)]) =
     (Returned 1, \<lparr>mem = [7], pos = 1, vars = seven_and_AB\<rparr>)"
  by (simp add: serialize_def Binary_def binary_serialize_def append_def store_at_def
      seven_and_AB_def resize_def vector_t_def)

lemma serialize_AB:
  "serialize vector_t Binary [7] 1 seven_and_AB (map Plain [(TString, 1)]) =
     (Returned 11, \<lparr>mem = [7, 2, 0, 0, 0, 0, 0, 0, 0, 65, 66], pos = 11, vars = seven_and_AB\<rparr>)"
  by (simp add: serialize_def Binary_def binary_serialize_def append_def store_at_def
      seven_and_AB_def resize_def vector_t_def size_bytes_2)

subsection \<open>The chain and the free store\<close>

lemma owned_live_iff:
  "owned_live rs s \<longleftrightarrow> (\<forall>r\<in>set rs. \<forall>a. attrs s r = Ptr (Some a) \<longrightarrow> live (heap s) a)"
  by (auto simp: owned_live_def split: field.splits option.splits)

lemma unshared_iff:
  "unshared rs s \<longleftrightarrow>
     (\<forall>r\<in>set rs. \<forall>r'\<in>set rs. \<forall>a.
        attrs s r = Ptr (Some a) \<longrightarrow> attrs s r' = Ptr (Some a) \<longrightarrow> r' = r)"
  by (auto simp: unshared_def split: field.splits option.splits)

lemma live_delete: "live (h[a := None]) b \<longleftrightarrow> live h b \<and> b \<noteq> a"
  by (cases "b = a") (auto simp: live_def)

lemma release_other:
  "\<not> (is_pointer_v H \<and> (\<exists>a. attrs s r = Ptr (Some a))) \<Longrightarrow> release H r s = Returned s"
  by (auto simp: release_def split: field.splits option.splits)

lemma release_owned:
  "is_pointer_v H \<Longrightarrow> attrs s r = Ptr (Some a) \<Longrightarrow> live (heap s) a \<Longrightarrow>
   release H r s = Returned (s\<lparr>attrs := (attrs s)(r := Ptr None), heap := (heap s)[a := None]\<rparr>)"
  by (simp add: release_def delete_def)

lemma release_sound:
  assumes ol: "owned_live rs s" and us: "unshared rs s" and r: "r \<in> set rs"
  shows "\<exists>s1. release H r s = Returned s1 \<and> owned_live rs s1 \<and> unshared rs s1 \<and>
           (is_pointer_v H \<longrightarrow> (\<forall>a. attrs s1 r \<noteq> Ptr (Some a)))"
proof (cases "is_pointer_v H \<and> (\<exists>a. attrs s r = Ptr (Some a))")
  case False
  then have "release H r s = Returned s" by (rule release_other)
  with False ol us show ?thesis by auto
next
  case True
  then obtain a where H: "is_pointer_v H" and a: "attrs s r = Ptr (Some a)" by blast
  from ol r a have la: "live (heap s) a" by (auto simp: owned_live_iff)
  let ?s1 = "s\<lparr>attrs := (attrs s)(r := Ptr None), heap := (heap s)[a := None]\<rparr>"
  have rel: "release H r s = Returned ?s1" by (rule release_owned [OF H a la])
  have ol1: "owned_live rs ?s1"
    unfolding owned_live_iff
  proof (intro ballI allI impI)
    fix r' b assume r': "r' \<in> set rs" and b: "attrs ?s1 r' = Ptr (Some b)"
    then have ne: "r' \<noteq> r" and b0: "attrs s r' = Ptr (Some b)" by (auto split: if_splits)
    from ol r' b0 have "live (heap s) b" by (auto simp: owned_live_iff)
    moreover from us r r' a b0 ne have "b \<noteq> a" by (auto simp: unshared_iff)
    ultimately show "live (heap ?s1) b" by (simp add: live_delete)
  qed
  have us1: "unshared rs ?s1"
    using us unfolding unshared_iff by (auto split: if_splits)
  show ?thesis using rel ol1 us1 by auto
qed

lemma allocates_onlyD:
  assumes "allocates_only conv"
    and "is_pointer_v H \<longrightarrow> (\<forall>a. f \<noteq> Ptr (Some a))"
    and "conv_deserialize conv H str f h = (out, str', h')"
  shows "(\<forall>a. live h a \<longrightarrow> live h' a) \<and>
         (\<forall>a. out = Returned (Ptr (Some a)) \<longrightarrow> live h' a \<and> \<not> live h a)"
proof -
  from assms(1) have "\<forall>H str f h.
        (is_pointer_v H \<longrightarrow> (\<forall>a. f \<noteq> Ptr (Some a))) \<longrightarrow>
        (case conv_deserialize conv H str f h of
           (out, str', h') \<Rightarrow>
             (\<forall>a. live h a \<longrightarrow> live h' a) \<and>
             (case out of
                Returned (Ptr (Some a)) \<Rightarrow> live h' a \<and> \<not> live h a
              | _ \<Rightarrow> True))"
    unfolding allocates_only_def .
  then have "(is_pointer_v H \<longrightarrow> (\<forall>a. f \<noteq> Ptr (Some a))) \<longrightarrow>
        (case conv_deserialize conv H str f h of
           (out, str', h') \<Rightarrow>
             (\<forall>a. live h a \<longrightarrow> live h' a) \<and>
             (case out of
                Returned (Ptr (Some a)) \<Rightarrow> live h' a \<and> \<not> live h a
              | _ \<Rightarrow> True))"
    by (elim allE)
  with assms(2) have c: "(\<forall>a. live h a \<longrightarrow> live h' a) \<and>
             (case out of
                Returned (Ptr (Some a)) \<Rightarrow> live h' a \<and> \<not> live h a
              | _ \<Rightarrow> True)"
    unfolding assms(3) by simp
  then have keep: "\<forall>a. live h a \<longrightarrow> live h' a" by (rule conjunct1)
  from c have "case out of
                Returned (Ptr (Some a)) \<Rightarrow> live h' a \<and> \<not> live h a
              | _ \<Rightarrow> True" by (rule conjunct2)
  then have fresh: "\<forall>a. out = Returned (Ptr (Some a)) \<longrightarrow> live h' a \<and> \<not> live h a"
    by (simp split: outcome.splits field.splits option.splits)
  from keep fresh show ?thesis by (rule conjI)
qed

lemma heap_grows_sound:
  assumes ol: "owned_live rs s" and us: "unshared rs s"
    and keep: "\<forall>a. live (heap s) a \<longrightarrow> live h' a"
  shows "owned_live rs (s\<lparr>heap := h'\<rparr>) \<and> unshared rs (s\<lparr>heap := h'\<rparr>)"
  using assms unfolding owned_live_iff unshared_iff by auto

lemma assign_sound:
  assumes ol: "owned_live rs s" and us: "unshared rs s"
    and keep: "\<forall>a. live (heap s) a \<longrightarrow> live h' a"
    and fresh: "\<forall>a. v = Ptr (Some a) \<longrightarrow> live h' a \<and> \<not> live (heap s) a"
  shows "owned_live rs (s\<lparr>attrs := (attrs s)(r := v), heap := h'\<rparr>) \<and>
         unshared rs (s\<lparr>attrs := (attrs s)(r := v), heap := h'\<rparr>)"
proof
  show "owned_live rs (s\<lparr>attrs := (attrs s)(r := v), heap := h'\<rparr>)"
    using ol keep fresh unfolding owned_live_iff by (auto split: if_splits)
  show "unshared rs (s\<lparr>attrs := (attrs s)(r := v), heap := h'\<rparr>)"
    unfolding unshared_iff
  proof (intro ballI allI impI)
    fix r1 r2 a
    assume r1: "r1 \<in> set rs" and r2: "r2 \<in> set rs"
      and a1: "attrs (s\<lparr>attrs := (attrs s)(r := v), heap := h'\<rparr>) r1 = Ptr (Some a)"
      and a2: "attrs (s\<lparr>attrs := (attrs s)(r := v), heap := h'\<rparr>) r2 = Ptr (Some a)"
    show "r2 = r1"
    proof (cases "r1 = r")
      case True
      with a1 have v: "v = Ptr (Some a)" by simp
      with fresh have nl: "\<not> live (heap s) a" by blast
      show ?thesis
      proof (cases "r2 = r")
        case True
        with \<open>r1 = r\<close> show ?thesis by simp
      next
        case False
        with a2 have "attrs s r2 = Ptr (Some a)" by simp
        with ol r2 have "live (heap s) a" by (auto simp: owned_live_iff)
        with nl show ?thesis by simp
      qed
    next
      case False
      with a1 have b1: "attrs s r1 = Ptr (Some a)" by simp
      with ol r1 have l1: "live (heap s) a" by (auto simp: owned_live_iff)
      show ?thesis
      proof (cases "r2 = r")
        case True
        with a2 have "v = Ptr (Some a)" by simp
        with fresh l1 show ?thesis by blast
      next
        case False
        with a2 have "attrs s r2 = Ptr (Some a)" by simp
        with us r1 r2 b1 show ?thesis by (auto simp: unshared_iff)
      qed
    qed
  qed
qed

lemma deserialize_sound:
  assumes conv: "allocates_only conv"
  shows "owned_live rs s \<Longrightarrow> unshared rs s \<Longrightarrow> set (slots c) \<subseteq> set rs \<Longrightarrow>
         AttrContainer_deserialize conv c (str, s) = (out, str', s') \<Longrightarrow>
         owned_live rs s' \<and> unshared rs s'"
proof (induction c arbitrary: str s)
  case Empty
  then show ?case by simp
next
  case (Node H r nm nxt)
  from Node.prems(3) have r: "r \<in> set rs" and sub: "set (slots nxt) \<subseteq> set rs" by simp_all
  from release_sound [OF Node.prems(1,2) r, of H]
  obtain s1 where rel: "release H r s = Returned s1" and ol1: "owned_live rs s1"
    and us1: "unshared rs s1" and nul: "is_pointer_v H \<longrightarrow> (\<forall>a. attrs s1 r \<noteq> Ptr (Some a))"
    by blast
  obtain res str1 h1 where cv: "conv_deserialize conv H str (attrs s1 r) (heap s1) = (res, str1, h1)"
    by (cases "conv_deserialize conv H str (attrs s1 r) (heap s1)")
  note al = allocates_onlyD [OF conv nul cv]
  show ?case
  proof (cases res)
    case (Raised e)
    with Node.prems(4) rel cv have "s' = s1\<lparr>heap := h1\<rparr>" by simp
    with heap_grows_sound [OF ol1 us1 conjunct1 [OF al]] show ?thesis by simp
  next
    case (Returned v)
    let ?s2 = "s1\<lparr>attrs := (attrs s1)(r := v), heap := h1\<rparr>"
    from Returned Node.prems(4) rel cv
    have run: "AttrContainer_deserialize conv nxt (str1, ?s2) = (out, str', s')" by simp
    from al Returned have fresh: "\<forall>a. v = Ptr (Some a) \<longrightarrow> live h1 a \<and> \<not> live (heap s1) a"
      by simp
    from assign_sound [OF ol1 us1 conjunct1 [OF al] fresh]
    have "owned_live rs ?s2" and "unshared rs ?s2" by simp_all
    from Node.IH [OF this sub run] show ?thesis .
  qed
qed


lemma spec_deserialize_TPtr:
  "\<forall>a. f \<noteq> Ptr (Some a) \<Longrightarrow>
   spec_deserialize (TPtr T) str f h =
     (case str of
        [] \<Rightarrow> (Raised OutOfRange, [], h)
      | flag # r \<Rightarrow>
          (if flag = 0 then (Returned (Ptr None), r, h)
           else (case decode T r of
                   None \<Rightarrow> (Raised OutOfRange, r, h @ [Some (default_val T)])
                 | Some (v, r') \<Rightarrow> (Returned (Ptr (Some (length h))), r', h @ [Some v]))))"
  by (cases f)
     (auto simp: spec_deserialize_def destroy_def new_def split: list.splits option.splits)

lemma spec_deserialize_other:
  "\<not> is_pointer_v H \<Longrightarrow>
   spec_deserialize H str f h =
     (case decode H str of
        None \<Rightarrow> (Raised OutOfRange, str, h)
      | Some (v, r) \<Rightarrow> (Returned (Val v), r, h))"
  by (cases H) (simp_all add: spec_deserialize_def)

lemma live_append: "live h a \<Longrightarrow> live (h @ xs) a"
  by (simp add: live_def nth_append)

lemma live_new: "live (h @ [Some v]) (length h)" and not_live_end: "\<not> live h (length h)"
  by (simp_all add: live_def)

lemma allocates_only_SpecConvertor: "allocates_only SpecConvertor"
  unfolding allocates_only_def
proof (intro allI impI)
  fix H str f h
  assume nul: "is_pointer_v H \<longrightarrow> (\<forall>a. f \<noteq> Ptr (Some a))"
  show "case conv_deserialize SpecConvertor H str f h of
      (out, str', h') \<Rightarrow>
        (\<forall>a. live h a \<longrightarrow> live h' a) \<and>
        (case out of Returned (Ptr (Some a)) \<Rightarrow> live h' a \<and> \<not> live h a | _ \<Rightarrow> True)"
  proof (cases "is_pointer_v H")
    case False
    then show ?thesis
      by (simp add: SpecConvertor_def spec_deserialize_other split: option.splits)
  next
    case True
    then obtain T where H: "H = TPtr T" by (cases H) simp_all
    from True nul have f: "\<forall>a. f \<noteq> Ptr (Some a)" by simp
    show ?thesis
      unfolding H SpecConvertor_def
      by (simp add: spec_deserialize_TPtr [OF f] live_append live_new not_live_end
          split: list.splits option.splits)
  qed
qed


lemma release_pointer:
  assumes ol: "owned_live rs s" and r: "r \<in> set rs"
    and H: "is_pointer_v H" and p: "attrs s r = Ptr p"
  shows "\<exists>s1. release H r s = Returned s1 \<and> attrs s1 r = Ptr None"
proof (cases p)
  case None
  with p H have "release H r s = Returned s" by (simp add: release_other)
  with p None show ?thesis by simp
next
  case (Some a)
  with ol r p have "live (heap s) a" by (auto simp: owned_live_iff)
  with release_owned [OF H] p Some show ?thesis by simp
qed

lemma release_one_owner:
  "release (TPtr (TRaw 1)) 0 one_owner =
     Returned (one_owner\<lparr>attrs := (attrs one_owner)(0 := Ptr None), heap := [None]\<rparr>)"
  by (simp add: release_def delete_def live_def one_owner_def)

lemma one_owner_sound: "owned_live [0] one_owner" "unshared [0] one_owner"
  by (simp_all add: owned_live_def unshared_def one_owner_def live_def)

subsection \<open>Decoding a pointer attribute\<close>

lemma deserialize_released:
  assumes a: "attrs s r = Ptr (Some a)" and l: "live (heap s) a"
  shows "AttrContainer_deserialize conv (Node (TPtr T) r nm nxt) (str, s) =
     (let s1 = s\<lparr>attrs := (attrs s)(r := Ptr None), heap := (heap s)[a := None]\<rparr>
      in (case conv_deserialize conv (TPtr T) str (Ptr None) (heap s1) of
            (Raised e, str', h') \<Rightarrow> (Raised e, str', s1\<lparr>heap := h'\<rparr>)
          | (Returned v, str', h') \<Rightarrow>
              AttrContainer_deserialize conv nxt
                (str', s1\<lparr>attrs := (attrs s1)(r := v), heap := h'\<rparr>)))"
proof -
  have "release (TPtr T) r s =
      Returned (s\<lparr>attrs := (attrs s)(r := Ptr None), heap := (heap s)[a := None]\<rparr>)"
    using a l by (simp add: release_owned)
  then show ?thesis by (simp add: Let_def)
qed

lemma spec_decode_null:
  "conv_deserialize SpecConvertor (TPtr T) (encode (VPtr None) @ rest) (Ptr None) h =
     (Returned (Ptr None), rest, h)"
  by (simp add: SpecConvertor_def spec_deserialize_TPtr)

lemma spec_decode_pointee:
  "has_ty v T \<Longrightarrow>
   conv_deserialize SpecConvertor (TPtr T) (encode (VPtr (Some v)) @ rest) (Ptr None) h =
     (Returned (Ptr (Some (length h))), rest, h @ [Some v])"
  by (simp add: SpecConvertor_def spec_deserialize_TPtr decode_encode)

subsection \<open>Decoding a chain with the convertor of the specification\<close>

lemma field_val_kept:
  assumes "\<forall>a. f = Ptr (Some a) \<longrightarrow> live h a"
    and "\<forall>a. live h a \<longrightarrow> live h' a \<and> h' ! a = h ! a"
  shows "field_val h' f = field_val h f"
proof (cases f)
  case (Val v)
  then show ?thesis by (simp add: field_val_def)
next
  case (Ptr p)
  show ?thesis
  proof (cases p)
    case None
    with Ptr show ?thesis by (simp add: field_val_def)
  next
    case (Some a)
    with Ptr assms(1) have l: "live h a" by simp
    with assms(2) have l': "live h' a" and eq: "h' ! a = h ! a" by simp_all
    from l l' eq show ?thesis by (simp add: field_val_def Ptr Some live_def)
  qed
qed

lemma release_frame:
  assumes ol: "owned_live rs s" and us: "unshared rs s" and r: "r \<in> set rs"
  shows "\<exists>s1. release H r s = Returned s1 \<and> owned_live rs s1 \<and> unshared rs s1 \<and>
           (is_pointer_v H \<longrightarrow> (\<forall>a. attrs s1 r \<noteq> Ptr (Some a))) \<and>
           (\<not> is_pointer_v H \<longrightarrow> s1 = s) \<and>
           (\<forall>r'. r' \<noteq> r \<longrightarrow> attrs s1 r' = attrs s r') \<and>
           (\<forall>r'\<in>set rs. r' \<noteq> r \<longrightarrow>
              field_val (heap s1) (attrs s1 r') = field_val (heap s) (attrs s r'))"
proof (cases "is_pointer_v H \<and> (\<exists>a. attrs s r = Ptr (Some a))")
  case False
  then have "release H r s = Returned s" by (rule release_other)
  with False ol us show ?thesis by auto
next
  case True
  then obtain a where H: "is_pointer_v H" and a: "attrs s r = Ptr (Some a)" by blast
  from ol r a have la: "live (heap s) a" by (auto simp: owned_live_iff)
  let ?s1 = "s\<lparr>attrs := (attrs s)(r := Ptr None), heap := (heap s)[a := None]\<rparr>"
  have rel: "release H r s = Returned ?s1" by (rule release_owned [OF H a la])
  from release_sound [OF ol us r, of H] rel
  have ol1: "owned_live rs ?s1" and us1: "unshared rs ?s1" by simp_all
  have fr: "\<forall>r'\<in>set rs. r' \<noteq> r \<longrightarrow>
      field_val (heap ?s1) (attrs ?s1 r') = field_val (heap s) (attrs s r')"
  proof (intro ballI impI)
    fix r' assume r': "r' \<in> set rs" and ne: "r' \<noteq> r"
    have own: "\<forall>b. attrs s r' = Ptr (Some b) \<longrightarrow> live (heap s) b \<and> b \<noteq> a"
    proof (intro allI impI)
      fix b assume b: "attrs s r' = Ptr (Some b)"
      from ol r' b have "live (heap s) b" by (auto simp: owned_live_iff)
      moreover from us r r' a b ne have "b \<noteq> a" by (auto simp: unshared_iff)
      ultimately show "live (heap s) b \<and> b \<noteq> a" by simp
    qed
    have "field_val ((heap s)[a := None]) (attrs s r') = field_val (heap s) (attrs s r')"
    proof (cases "attrs s r'")
      case (Val v)
      then show ?thesis by (simp add: field_val_def)
    next
      case (Ptr p)
      show ?thesis
      proof (cases p)
        case None
        with Ptr show ?thesis by (simp add: field_val_def)
      next
        case (Some b)
        with Ptr own have "b \<noteq> a" by simp
        then show ?thesis by (simp add: field_val_def Ptr Some)
      qed
    qed
    with ne show "field_val (heap ?s1) (attrs ?s1 r') = field_val (heap s) (attrs s r')"
      by simp
  qed
  show ?thesis using rel ol1 us1 H fr by auto
qed


lemma spec_decodes:
  assumes nul: "is_pointer_v H \<longrightarrow> (\<forall>a. f \<noteq> Ptr (Some a))" and ty: "has_ty v H"
  shows "\<exists>g h'. conv_deserialize SpecConvertor H (encode v @ rest) f h = (Returned g, rest, h') \<and>
           field_val h' g = v \<and>
           (\<forall>a. live h a \<longrightarrow> live h' a \<and> h' ! a = h ! a) \<and>
           (\<forall>a. g = Ptr (Some a) \<longrightarrow> live h' a \<and> \<not> live h a)"
proof (cases "is_pointer_v H")
  case False
  then have "conv_deserialize SpecConvertor H (encode v @ rest) f h = (Returned (Val v), rest, h)"
    by (simp add: SpecConvertor_def spec_deserialize_other decode_encode [OF ty])
  then show ?thesis by (simp add: field_val_def)
next
  case True
  then obtain T where H: "H = TPtr T" by (cases H) simp_all
  from True nul have f: "\<forall>a. f \<noteq> Ptr (Some a)" by simp
  from ty H obtain p where v: "v = VPtr p" by (cases v) simp_all
  show ?thesis
  proof (cases p)
    case None
    have "conv_deserialize SpecConvertor H (encode v @ rest) f h = (Returned (Ptr None), rest, h)"
      by (simp add: SpecConvertor_def H v None spec_deserialize_TPtr [OF f])
    then show ?thesis by (simp add: field_val_def v None)
  next
    case (Some w)
    with ty H v have w: "has_ty w T" by simp
    have run: "conv_deserialize SpecConvertor H (encode v @ rest) f h =
        (Returned (Ptr (Some (length h))), rest, h @ [Some w])"
      by (simp add: SpecConvertor_def H v Some spec_deserialize_TPtr [OF f] decode_encode [OF w])
    have fv: "field_val (h @ [Some w]) (Ptr (Some (length h))) = v"
      by (simp add: field_val_def v Some)
    have keep: "\<forall>a. live h a \<longrightarrow> live (h @ [Some w]) a \<and> (h @ [Some w]) ! a = h ! a"
      by (simp add: live_def nth_append)
    have fresh: "live (h @ [Some w]) (length h) \<and> \<not> live h (length h)"
      by (simp add: live_def)
    from run fv keep fresh show ?thesis by simp
  qed
qed

lemma spec_node_success:
  assumes ol: "owned_live rs s" and us: "unshared rs s" and r: "r \<in> set rs"
    and ty: "has_ty v H"
  shows "\<exists>s'. AttrContainer_deserialize SpecConvertor (Node H r nm nxt) (encode v @ rest, s) =
             AttrContainer_deserialize SpecConvertor nxt (rest, s') \<and>
           owned_live rs s' \<and> unshared rs s' \<and>
           field_val (heap s') (attrs s' r) = v \<and>
           (\<forall>r'. r' \<noteq> r \<longrightarrow> attrs s' r' = attrs s r') \<and>
           (\<forall>r'\<in>set rs. r' \<noteq> r \<longrightarrow>
              field_val (heap s') (attrs s' r') = field_val (heap s) (attrs s r'))"
proof -
  from release_frame [OF ol us r, of H]
  obtain s1 where rel: "release H r s = Returned s1" and ol1: "owned_live rs s1"
    and us1: "unshared rs s1" and nul: "is_pointer_v H \<longrightarrow> (\<forall>a. attrs s1 r \<noteq> Ptr (Some a))"
    and at1: "\<forall>r'. r' \<noteq> r \<longrightarrow> attrs s1 r' = attrs s r'"
    and fv1: "\<forall>r'\<in>set rs. r' \<noteq> r \<longrightarrow>
        field_val (heap s1) (attrs s1 r') = field_val (heap s) (attrs s r')"
    by blast
  from spec_decodes [OF nul ty, of rest "heap s1"]
  obtain g h' where cv: "conv_deserialize SpecConvertor H (encode v @ rest) (attrs s1 r) (heap s1) =
      (Returned g, rest, h')"
    and fg: "field_val h' g = v"
    and keep: "\<forall>a. live (heap s1) a \<longrightarrow> live h' a \<and> h' ! a = (heap s1) ! a"
    and fresh: "\<forall>a. g = Ptr (Some a) \<longrightarrow> live h' a \<and> \<not> live (heap s1) a"
    by blast
  let ?s' = "s1\<lparr>attrs := (attrs s1)(r := g), heap := h'\<rparr>"
  have run: "AttrContainer_deserialize SpecConvertor (Node H r nm nxt) (encode v @ rest, s) =
      AttrContainer_deserialize SpecConvertor nxt (rest, ?s')"
    by (simp add: rel cv)
  from keep have keep': "\<forall>a. live (heap s1) a \<longrightarrow> live h' a" by simp
  from assign_sound [OF ol1 us1 keep' fresh]
  have ol': "owned_live rs ?s'" and us': "unshared rs ?s'" by simp_all
  have fv: "field_val (heap ?s') (attrs ?s' r) = v" using fg by simp
  have at: "\<forall>r'. r' \<noteq> r \<longrightarrow> attrs ?s' r' = attrs s r'" using at1 by simp
  have fr: "\<forall>r'\<in>set rs. r' \<noteq> r \<longrightarrow>
      field_val (heap ?s') (attrs ?s' r') = field_val (heap s) (attrs s r')"
  proof (intro ballI impI)
    fix r' assume r': "r' \<in> set rs" and ne: "r' \<noteq> r"
    from ol1 r' have own: "\<forall>a. attrs s1 r' = Ptr (Some a) \<longrightarrow> live (heap s1) a"
      by (auto simp: owned_live_iff)
    from field_val_kept [OF own keep]
    have "field_val h' (attrs s1 r') = field_val (heap s1) (attrs s1 r')" .
    with fv1 r' ne show "field_val (heap ?s') (attrs ?s' r') = field_val (heap s) (attrs s r')"
      by simp
  qed
  from run ol' us' fv at fr show ?thesis by blast
qed


lemma spec_chain_success:
  "owned_live rs s \<Longrightarrow> unshared rs s \<Longrightarrow> set (slots c) \<subseteq> set rs \<Longrightarrow> distinct (slots c) \<Longrightarrow>
   list_all2 has_ty vs (types c) \<Longrightarrow>
   \<exists>s'. AttrContainer_deserialize SpecConvertor c (concat (map encode vs) @ rest, s) =
          (Returned (), rest, s') \<and>
        owned_live rs s' \<and> unshared rs s' \<and>
        map (\<lambda>r. field_val (heap s') (attrs s' r)) (slots c) = vs \<and>
        (\<forall>r'. r' \<notin> set (slots c) \<longrightarrow> attrs s' r' = attrs s r') \<and>
        (\<forall>r'\<in>set rs. r' \<notin> set (slots c) \<longrightarrow>
           field_val (heap s') (attrs s' r') = field_val (heap s) (attrs s r'))"
proof (induction c arbitrary: s vs)
  case Empty
  then show ?case by simp
next
  case (Node H r nm nxt)
  from Node.prems(5) obtain v ws where vs: "vs = v # ws" and v: "has_ty v H"
    and ws: "list_all2 has_ty ws (types nxt)"
    by (auto simp: list_all2_Cons2)
  from Node.prems(3) have r: "r \<in> set rs" and sub: "set (slots nxt) \<subseteq> set rs" by simp_all
  from Node.prems(4) have rn: "r \<notin> set (slots nxt)" and dist: "distinct (slots nxt)" by simp_all
  from spec_node_success [OF Node.prems(1,2) r v, of nm nxt "concat (map encode ws) @ rest"]
  obtain s1 where step: "AttrContainer_deserialize SpecConvertor (Node H r nm nxt)
        (encode v @ concat (map encode ws) @ rest, s) =
      AttrContainer_deserialize SpecConvertor nxt (concat (map encode ws) @ rest, s1)"
    and ol1: "owned_live rs s1" and us1: "unshared rs s1"
    and fv1: "field_val (heap s1) (attrs s1 r) = v"
    and at1: "\<forall>r'. r' \<noteq> r \<longrightarrow> attrs s1 r' = attrs s r'"
    and fr1: "\<forall>r'\<in>set rs. r' \<noteq> r \<longrightarrow>
        field_val (heap s1) (attrs s1 r') = field_val (heap s) (attrs s r')"
    by blast
  from Node.IH [OF ol1 us1 sub dist ws]
  obtain s' where run: "AttrContainer_deserialize SpecConvertor nxt (concat (map encode ws) @ rest, s1) =
      (Returned (), rest, s')"
    and ol': "owned_live rs s'" and us': "unshared rs s'"
    and vals: "map (\<lambda>r. field_val (heap s') (attrs s' r)) (slots nxt) = ws"
    and at': "\<forall>r'. r' \<notin> set (slots nxt) \<longrightarrow> attrs s' r' = attrs s1 r'"
    and fr': "\<forall>r'\<in>set rs. r' \<notin> set (slots nxt) \<longrightarrow>
        field_val (heap s') (attrs s' r') = field_val (heap s1) (attrs s1 r')"
    by blast
  have whole: "AttrContainer_deserialize SpecConvertor (Node H r nm nxt)
      (concat (map encode vs) @ rest, s) = (Returned (), rest, s')"
    using step run by (simp add: vs)
  from fr' r rn fv1 have head: "field_val (heap s') (attrs s' r) = v" by simp
  have allv: "map (\<lambda>r. field_val (heap s') (attrs s' r)) (slots (Node H r nm nxt)) = vs"
    using head vals by (simp add: vs)
  have at: "\<forall>r'. r' \<notin> set (slots (Node H r nm nxt)) \<longrightarrow> attrs s' r' = attrs s r'"
    using at' at1 by simp
  have fr: "\<forall>r'\<in>set rs. r' \<notin> set (slots (Node H r nm nxt)) \<longrightarrow>
      field_val (heap s') (attrs s' r') = field_val (heap s) (attrs s r')"
    using fr' fr1 by simp
  from whole ol' us' allv at fr show ?case by blast
qed

lemma spec_chain_serialize:
  "AttrContainer_serialize SpecConvertor s c str =
     str @ concat (map (\<lambda>r. encode (field_val (heap s) (attrs s r))) (slots c))"
proof (induction c arbitrary: str)
  case Empty
  show ?case by simp
next
  case (Node H r nm nxt)
  show ?case
  proof (cases nxt)
    case Empty
    then show ?thesis by (simp add: SpecConvertor_def spec_serialize_def)
  next
    case (Node H' r' nm' nxt')
    have "AttrContainer_serialize SpecConvertor s (AttrContainer.Node H r nm nxt) str =
        AttrContainer_serialize SpecConvertor s nxt (str @ encode (field_val (heap s) (attrs s r)))"
      by (simp add: Node SpecConvertor_def spec_serialize_def)
    then show ?thesis by (simp add: Node.IH)
  qed
qed


lemma Binary_roundtrip:
  assumes typed: "\<forall>a\<in>set as. has_ty (e (snd a)) (fst a)"
    and fits: "length (record_of e as) < 2 ^ 64"
  shows "let s1 = snd (serialize mt Binary m 0 e (map Plain as));
             res = deserialize Binary (mem s1) 0 e0 (map Plain as)
         in fst res = Returned (pos s1) \<and> (\<forall>a\<in>set as. vars (snd res) (snd a) = e (snd a))"
proof -
  let ?A = "record_of e as"
  have fitsA: "unat (0 :: size_t) + length ?A < 2 ^ 64" using fits by simp
  obtain M where ser: "serialize mt Binary m 0 e (map Plain as) =
      (Returned (of_nat (length ?A)), \<lparr>mem = M, pos = of_nat (length ?A), vars = e\<rparr>)"
    and t: "take (length ?A) M = ?A"
    using serialize_Binary [of 0 m e as mt] fitsA by auto
  have "M = ?A @ drop (length ?A) M"
    using append_take_drop_id [of "length ?A" M] by (simp only: t)
  then have src: "drop (unat (0 :: size_t)) M = ?A @ drop (length ?A) M" by simp
  have de: "deserialize Binary M 0 e0 (map Plain as) =
      (Returned (of_nat (length ?A)), \<lparr>mem = M, pos = of_nat (length ?A), vars = assigned e as e0\<rparr>)"
    using deserialize_Binary [OF src typed fitsA, of e0] by simp
  show ?thesis
    unfolding Let_def ser snd_conv by (simp add: de assigned_at)
qed

lemma two_nodes_record:
  "AttrContainer_serialize SpecConvertor two_attrs two_nodes [] =
     [1, 7, 2, 0, 0, 0, 0, 0, 0, 0, 65, 66]"
  by (simp add: two_nodes_def two_attrs_def SpecConvertor_def spec_serialize_def field_val_def
      size_bytes_2)

lemma two_attrs_values:
  "field_val (heap two_attrs) (attrs two_attrs 0) = VPtr (Some (VRaw [7]))"
  "field_val (heap two_attrs) (attrs two_attrs 1) = VStr [65, 66]"
  by (simp_all add: two_attrs_def field_val_def)

lemma one_owner_two_slots: "owned_live [0, 1] one_owner" "unshared [0, 1] one_owner"
  by (simp_all add: owned_live_def unshared_def one_owner_def live_def)

subsection \<open>A source that ends too early\<close>







subsection \<open>The claims\<close>








text \<open>
  C7. The chain with no fields is the identity of encoding and of decoding: its
  \<open>serialize\<close> returns the string it was given, with nothing appended, and its
  \<open>deserialize\<close> returns normally and leaves the view, the attributes and the free
  store as they were, whatever the convertor is.
\<close>

theorem empty_chain_identity:
  "AttrContainer_serialize conv s Empty str = str \<and>
   AttrContainer_deserialize conv Empty (str, s) = (Returned (), str, s)"
  by simp

text \<open>
  C8. \<open>serialize\<close> and \<open>deserialize\<close> are the traversal of the specification over
  their argument list, started on the serializer bound to the buffer and the position:
  a fold from the left in which a phase-aware callable is invoked with a context
  carrying the phase tag (\<open>Serialization\<close> in \<open>serialize\<close>, \<open>Deserialization\<close> in
  \<open>deserialize\<close>) and the bound strategy, and any other argument goes to the
  strategy's \<open>serialize_\<close> or \<open>deserialize_\<close>; what they add is the returned position,
  and in \<open>serialize\<close> the trim. In particular a single callable is invoked with the
  context of the phase, a single other argument goes to the operation of the phase, and
  the arguments of a list \<open>xs @ ys\<close> are processed as \<open>xs\<close> first and then \<open>ys\<close>,
  from the buffer, position and variables that \<open>xs\<close> left (for \<open>serialize\<close> this
  is stated on a \<open>Bytes\<close> buffer, which is never trimmed in between).
\<close>

theorem traversal_is_left_fold:
  "serialize mt S m p e args =
     (case spec_traversal Serialization S args \<lparr>mem = m, pos = p, vars = e\<rparr> of
        (Raised err, s) \<Rightarrow> (Raised err, s)
      | (Returned u, s) \<Rightarrow>
          (Returned (pos s),
           if p = 0 \<and> \<not> is_serializer_bytes_v mt \<and> Resizeable mt
           then s\<lparr>mem := resize (unat (pos s)) (mem s)\<rparr> else s)) \<and>
   deserialize S m p e args =
     (case spec_traversal Deserialization S args \<lparr>mem = m, pos = p, vars = e\<rparr> of
        (Raised err, s) \<Rightarrow> (Raised err, s)
      | (Returned u, s) \<Rightarrow> (Returned (pos s), s)) \<and>
   deserialize S m p e [Function f] =
     (case f \<lparr>phase = Deserialization, serializer = S\<rparr> \<lparr>mem = m, pos = p, vars = e\<rparr> of
        (Raised err, s) \<Rightarrow> (Raised err, s)
      | (Returned u, s) \<Rightarrow> (Returned (pos s), s)) \<and>
   deserialize S m p e [Plain a] =
     (case deserialize_op S a \<lparr>mem = m, pos = p, vars = e\<rparr> of
        (Raised err, s) \<Rightarrow> (Raised err, s)
      | (Returned u, s) \<Rightarrow> (Returned (pos s), s)) \<and>
   deserialize S m p e (xs @ ys) =
     (case deserialize S m p e xs of
        (Raised err, s) \<Rightarrow> (Raised err, s)
      | (Returned q, s) \<Rightarrow> deserialize S (mem s) q (vars s) ys) \<and>
   serialize bytes_t S m p e [Function f] =
     (case f \<lparr>phase = Serialization, serializer = S\<rparr> \<lparr>mem = m, pos = p, vars = e\<rparr> of
        (Raised err, s) \<Rightarrow> (Raised err, s)
      | (Returned u, s) \<Rightarrow> (Returned (pos s), s)) \<and>
   serialize bytes_t S m p e [Plain a] =
     (case serialize_op S a \<lparr>mem = m, pos = p, vars = e\<rparr> of
        (Raised err, s) \<Rightarrow> (Raised err, s)
      | (Returned u, s) \<Rightarrow> (Returned (pos s), s)) \<and>
   serialize bytes_t S m p e (xs @ ys) =
     (case serialize bytes_t S m p e xs of
        (Raised err, s) \<Rightarrow> (Raised err, s)
      | (Returned q, s) \<Rightarrow> serialize bytes_t S (mem s) q (vars s) ys)"
proof (intro conjI)
  show "serialize mt S m p e args =
     (case spec_traversal Serialization S args \<lparr>mem = m, pos = p, vars = e\<rparr> of
        (Raised err, s) \<Rightarrow> (Raised err, s)
      | (Returned u, s) \<Rightarrow>
          (Returned (pos s),
           if p = 0 \<and> \<not> is_serializer_bytes_v mt \<and> Resizeable mt
           then s\<lparr>mem := resize (unat (pos s)) (mem s)\<rparr> else s))"
    by (simp add: serialize_def Let_def serialize_pack_spec split: prod.splits outcome.splits)
  show "deserialize S m p e args =
     (case spec_traversal Deserialization S args \<lparr>mem = m, pos = p, vars = e\<rparr> of
        (Raised err, s) \<Rightarrow> (Raised err, s)
      | (Returned u, s) \<Rightarrow> (Returned (pos s), s))"
    by (simp add: deserialize_def deserialize_pack_spec)
  show "deserialize S m p e [Function f] =
     (case f \<lparr>phase = Deserialization, serializer = S\<rparr> \<lparr>mem = m, pos = p, vars = e\<rparr> of
        (Raised err, s) \<Rightarrow> (Raised err, s)
      | (Returned u, s) \<Rightarrow> (Returned (pos s), s))"
    by (simp add: deserialize_def split: prod.splits outcome.splits)
  show "deserialize S m p e [Plain a] =
     (case deserialize_op S a \<lparr>mem = m, pos = p, vars = e\<rparr> of
        (Raised err, s) \<Rightarrow> (Raised err, s)
      | (Returned u, s) \<Rightarrow> (Returned (pos s), s))"
    by (simp add: deserialize_def split: prod.splits outcome.splits)
  show "deserialize S m p e (xs @ ys) =
     (case deserialize S m p e xs of
        (Raised err, s) \<Rightarrow> (Raised err, s)
      | (Returned q, s) \<Rightarrow> deserialize S (mem s) q (vars s) ys)"
    by (simp add: deserialize_def deserialize_pack_append frame_eta
        split: prod.splits outcome.splits)
  show "serialize bytes_t S m p e [Function f] =
     (case f \<lparr>phase = Serialization, serializer = S\<rparr> \<lparr>mem = m, pos = p, vars = e\<rparr> of
        (Raised err, s) \<Rightarrow> (Raised err, s)
      | (Returned u, s) \<Rightarrow> (Returned (pos s), s))"
    by (simp add: serialize_def bytes_t_def split: prod.splits outcome.splits)
  show "serialize bytes_t S m p e [Plain a] =
     (case serialize_op S a \<lparr>mem = m, pos = p, vars = e\<rparr> of
        (Raised err, s) \<Rightarrow> (Raised err, s)
      | (Returned u, s) \<Rightarrow> (Returned (pos s), s))"
    by (simp add: serialize_def bytes_t_def split: prod.splits outcome.splits)
  show "serialize bytes_t S m p e (xs @ ys) =
     (case serialize bytes_t S m p e xs of
        (Raised err, s) \<Rightarrow> (Raised err, s)
      | (Returned q, s) \<Rightarrow> serialize bytes_t S (mem s) q (vars s) ys)"
    by (simp add: serialize_def bytes_t_def serialize_pack_append frame_eta
        split: prod.splits outcome.splits)
qed

text \<open>
  C2, as the code has it. A call of \<open>serialize\<close> that starts at position zero, on a
  buffer type that satisfies \<open>Resizeable\<close> and is not the library's own \<open>Bytes\<close>,
  and whose fold completes, resizes the buffer to exactly the final cursor position. A
  call that starts at another position leaves the buffer as its fold left it.
  \<open>deserialize\<close> leaves the buffer as its fold left it, and with the operations of the
  binary strategy that is the buffer it was given.
\<close>

theorem trim_only_at_top_level:
  "(Resizeable mt \<and> \<not> is_serializer_bytes_v mt \<and>
      serialize_pack S args \<lparr>mem = m, pos = 0, vars = e\<rparr> = (Returned (), s) \<longrightarrow>
        serialize mt S m 0 e args = (Returned (pos s), s\<lparr>mem := resize (unat (pos s)) (mem s)\<rparr>) \<and>
        length (mem (snd (serialize mt S m 0 e args))) = unat (pos s)) \<and>
   (p \<noteq> 0 \<longrightarrow>
      snd (serialize mt S m p e args) = snd (serialize_pack S args \<lparr>mem = m, pos = p, vars = e\<rparr>)) \<and>
   snd (deserialize S m p e args) = snd (deserialize_pack S args \<lparr>mem = m, pos = p, vars = e\<rparr>) \<and>
   mem (snd (deserialize Binary m p vs (map Plain as))) = m"
proof (intro conjI impI)
  assume h: "Resizeable mt \<and> \<not> is_serializer_bytes_v mt \<and>
      serialize_pack S args \<lparr>mem = m, pos = 0, vars = e\<rparr> = (Returned (), s)"
  then show eq: "serialize mt S m 0 e args =
      (Returned (pos s), s\<lparr>mem := resize (unat (pos s)) (mem s)\<rparr>)"
    by (simp add: serialize_def)
  show "length (mem (snd (serialize mt S m 0 e args))) = unat (pos s)"
    by (simp add: eq resize_def)
next
  assume "p \<noteq> 0"
  then show "snd (serialize mt S m p e args) =
      snd (serialize_pack S args \<lparr>mem = m, pos = p, vars = e\<rparr>)"
    by (simp add: serialize_def split: prod.splits outcome.splits)
next
  show "snd (deserialize S m p e args) =
      snd (deserialize_pack S args \<lparr>mem = m, pos = p, vars = e\<rparr>)"
    by (rule deserialize_frame)
  show "mem (snd (deserialize Binary m p vs (map Plain as))) = m"
    by (simp add: deserialize_frame deserialize_pack_Binary_mem)
qed

theorem trim_only_at_top_level_witness:
  "Resizeable vector_t \<and> \<not> is_serializer_bytes_v vector_t \<and> (1 :: size_t) \<noteq> 0 \<and>
   serialize vector_t Binary [9, 9, 9, 9] 0 sevens [Plain (TRaw 1, 0)] =
     (Returned 1, \<lparr>mem = [7], pos = 1, vars = sevens\<rparr>) \<and>
   snd (serialize vector_t Binary [9, 9, 9, 9] 1 sevens [Plain (TRaw 1, 0)]) =
     \<lparr>mem = [9, 7, 9, 9], pos = 2, vars = sevens\<rparr>"
proof -
  have h: "Resizeable vector_t \<and> \<not> is_serializer_bytes_v vector_t \<and>
      serialize_pack Binary [Plain (TRaw 1, 0)] \<lparr>mem = [9, 9, 9, 9], pos = 0, vars = sevens\<rparr> =
        (Returned (), \<lparr>mem = [7, 9, 9, 9], pos = 1, vars = sevens\<rparr>)"
    using pack_sevens_0 by (simp add: vector_t_def)
  have n: "(1 :: size_t) \<noteq> 0" by simp
  note t = trim_only_at_top_level [of vector_t Binary "[Plain (TRaw 1, 0)]" "[9, 9, 9, 9]" sevens
      "\<lparr>mem = [7, 9, 9, 9], pos = 1, vars = sevens\<rparr>" 1]
  have r: "resize (unat (1 :: size_t)) [7, 9, 9, 9] = [7]" by (simp add: resize_def)
  from t h have "serialize vector_t Binary [9, 9, 9, 9] 0 sevens [Plain (TRaw 1, 0)] =
      (Returned (pos \<lparr>mem = [7, 9, 9, 9], pos = 1, vars = sevens\<rparr>),
       \<lparr>mem = [7, 9, 9, 9], pos = 1, vars = sevens\<rparr>
         \<lparr>mem := resize (unat (pos \<lparr>mem = [7, 9, 9, 9], pos = 1, vars = sevens\<rparr>))
                   (mem \<lparr>mem = [7, 9, 9, 9], pos = 1, vars = sevens\<rparr>)\<rparr>)"
    by blast
  then have a: "serialize vector_t Binary [9, 9, 9, 9] 0 sevens [Plain (TRaw 1, 0)] =
      (Returned 1, \<lparr>mem = [7], pos = 1, vars = sevens\<rparr>)"
    by (simp add: resize_def)
  from t n have "snd (serialize vector_t Binary [9, 9, 9, 9] 1 sevens [Plain (TRaw 1, 0)]) =
      snd (serialize_pack Binary [Plain (TRaw 1, 0)] \<lparr>mem = [9, 9, 9, 9], pos = 1, vars = sevens\<rparr>)"
    by blast
  then have b: "snd (serialize vector_t Binary [9, 9, 9, 9] 1 sevens [Plain (TRaw 1, 0)]) =
      \<lparr>mem = [9, 7, 9, 9], pos = 2, vars = sevens\<rparr>"
    by (simp only: pack_sevens_1 snd_conv)
  show ?thesis using h n a b by blast
qed

text \<open>
  C2 as stated fails on a \<open>Bytes\<close> buffer that satisfies \<open>Resizeable\<close>: the call starts
  at zero, the fold completes at position 1, and the buffer keeps its four cells.
\<close>

theorem bytes_buffer_not_trimmed:
  "Resizeable bytes_t \<and>
   serialize bytes_t Binary [9, 9, 9, 9] 0 sevens [Plain (TRaw 1, 0)] =
     (Returned 1, \<lparr>mem = [7, 9, 9, 9], pos = 1, vars = sevens\<rparr>) \<and>
   length [7, 9, 9, 9 :: byte] \<noteq> unat (1 :: size_t)"
proof -
  have "serialize bytes_t Binary [9, 9, 9, 9] 0 sevens [Plain (TRaw 1, 0)] =
     (Returned 1, \<lparr>mem = [7, 9, 9, 9], pos = 1, vars = sevens\<rparr>)"
    unfolding serialize_def Let_def pack_sevens_0 by (simp add: bytes_t_def)
  then show ?thesis by (simp add: bytes_t_def)
qed

text \<open>
  C6. A call of \<open>serialize\<close> or \<open>deserialize\<close> that returns, returns the cursor
  position of the frame it leaves. With the binary strategy (modelled from the spec),
  well-typed variables and records that fit into the address space: \<open>serialize\<close> at
  position 0 returns the length \<open>p1\<close> of the first record, \<open>serialize\<close> on the same
  buffer at \<open>p1\<close> returns \<open>p2\<close>, the buffer then starts with the first record followed
  at once by the second, and \<open>deserialize\<close> at 0 and at \<open>p1\<close> return \<open>p1\<close> and
  \<open>p2\<close> and assign the variables of each record the values that were encoded.
\<close>

theorem two_records_back_to_back:
  assumes typed: "\<forall>a\<in>set (as @ bs). has_ty (e (snd a)) (fst a)"
    and fits: "length (record_of e as) + length (record_of e bs) < 2 ^ 64"
  shows "(case serialize mt' S m' p e' args of
            (Returned q, s) \<Rightarrow> q = pos s | (Raised err, s) \<Rightarrow> True) \<and>
         (case deserialize S m' p e' args of
            (Returned q, s) \<Rightarrow> q = pos s | (Raised err, s) \<Rightarrow> True) \<and>
         (let A = record_of e as; B = record_of e bs;
             p1 = of_nat (length A); p2 = p1 + of_nat (length B);
             s1 = snd (serialize mt Binary m 0 e (map Plain as));
             s2 = snd (serialize mt Binary (mem s1) p1 e (map Plain bs))
         in fst (serialize mt Binary m 0 e (map Plain as)) = Returned p1 \<and> pos s1 = p1 \<and>
            fst (serialize mt Binary (mem s1) p1 e (map Plain bs)) = Returned p2 \<and> pos s2 = p2 \<and>
            unat p1 = length A \<and> unat p2 = length A + length B \<and>
            take (length A + length B) (mem s2) = A @ B \<and>
            deserialize Binary (mem s2) 0 e0 (map Plain as) =
              (Returned p1, \<lparr>mem = mem s2, pos = p1, vars = assigned e as e0\<rparr>) \<and>
            (\<forall>a\<in>set as. assigned e as e0 (snd a) = e (snd a)) \<and>
            deserialize Binary (mem s2) p1 e0 (map Plain bs) =
              (Returned p2, \<lparr>mem = mem s2, pos = p2, vars = assigned e bs e0\<rparr>) \<and>
            (\<forall>a\<in>set bs. assigned e bs e0 (snd a) = e (snd a)))"
proof -
  let ?A = "record_of e as" and ?B = "record_of e bs"
  let ?p1 = "of_nat (length ?A) :: size_t"
  let ?p2 = "?p1 + of_nat (length ?B)"
  have fitsA: "unat (0 :: size_t) + length ?A < 2 ^ 64" using fits by simp
  obtain M1 where ser1: "serialize mt Binary m 0 e (map Plain as) =
      (Returned ?p1, \<lparr>mem = M1, pos = ?p1, vars = e\<rparr>)"
    and t1: "take (length ?A) M1 = ?A"
    using serialize_Binary [of 0 m e as mt] fitsA by auto
  have u1: "unat ?p1 = length ?A" using fits by (simp add: unat_of_nat)
  have l1: "length ?A \<le> length M1"
  proof -
    have "length (take (length ?A) M1) = length ?A" by (simp only: t1)
    then show ?thesis by simp
  qed
  have insideB: "unat ?p1 \<le> length M1" using l1 by (simp only: u1)
  have fitsB: "unat ?p1 + length ?B < 2 ^ 64" using fits by (simp only: u1)
  obtain M2 where ser2: "serialize mt Binary M1 ?p1 e (map Plain bs) =
      (Returned ?p2, \<lparr>mem = M2, pos = ?p2, vars = e\<rparr>)"
    and t2: "take (unat ?p1 + length ?B) M2 = take (unat ?p1) M1 @ ?B"
    using serialize_Binary [OF insideB fitsB, of mt] by auto
  have u2: "unat ?p2 = length ?A + length ?B"
    using unat_advance [OF fitsB] by (simp only: u1)
  have t2': "take (length ?A + length ?B) M2 = ?A @ ?B"
    using t2 by (simp only: u1 t1)
  have M2: "M2 = ?A @ ?B @ drop (length ?A + length ?B) M2"
    using append_take_drop_id [of "length ?A + length ?B" M2] by (simp only: t2' append_assoc)
  have srcA: "drop (unat (0 :: size_t)) M2 = ?A @ (?B @ drop (length ?A + length ?B) M2)"
    using M2 by simp
  have srcB: "drop (unat ?p1) M2 = ?B @ drop (length ?A + length ?B) M2"
  proof -
    have "drop (length ?A) (?A @ ?B @ drop (length ?A + length ?B) M2) =
        ?B @ drop (length ?A + length ?B) M2" by simp
    then show ?thesis by (simp only: u1 M2 [symmetric])
  qed
  have tyA: "\<forall>a\<in>set as. has_ty (e (snd a)) (fst a)"
    and tyB: "\<forall>a\<in>set bs. has_ty (e (snd a)) (fst a)"
    using typed by simp_all
  have de1: "deserialize Binary M2 0 e0 (map Plain as) =
      (Returned ?p1, \<lparr>mem = M2, pos = ?p1, vars = assigned e as e0\<rparr>)"
    using deserialize_Binary [OF srcA tyA fitsA, of e0] by simp
  have de2: "deserialize Binary M2 ?p1 e0 (map Plain bs) =
      (Returned ?p2, \<lparr>mem = M2, pos = ?p2, vars = assigned e bs e0\<rparr>)"
    by (rule deserialize_Binary [OF srcB tyB fitsB])
  have asA: "\<forall>a\<in>set as. assigned e as e0 (snd a) = e (snd a)"
    and asB: "\<forall>a\<in>set bs. assigned e bs e0 (snd a) = e (snd a)"
    by (simp_all add: assigned_at)
  have main: "let A = record_of e as; B = record_of e bs;
             p1 = of_nat (length A); p2 = p1 + of_nat (length B);
             s1 = snd (serialize mt Binary m 0 e (map Plain as));
             s2 = snd (serialize mt Binary (mem s1) p1 e (map Plain bs))
         in fst (serialize mt Binary m 0 e (map Plain as)) = Returned p1 \<and> pos s1 = p1 \<and>
            fst (serialize mt Binary (mem s1) p1 e (map Plain bs)) = Returned p2 \<and> pos s2 = p2 \<and>
            unat p1 = length A \<and> unat p2 = length A + length B \<and>
            take (length A + length B) (mem s2) = A @ B \<and>
            deserialize Binary (mem s2) 0 e0 (map Plain as) =
              (Returned p1, \<lparr>mem = mem s2, pos = p1, vars = assigned e as e0\<rparr>) \<and>
            (\<forall>a\<in>set as. assigned e as e0 (snd a) = e (snd a)) \<and>
            deserialize Binary (mem s2) p1 e0 (map Plain bs) =
              (Returned p2, \<lparr>mem = mem s2, pos = p2, vars = assigned e bs e0\<rparr>) \<and>
            (\<forall>a\<in>set bs. assigned e bs e0 (snd a) = e (snd a))"
    unfolding Let_def ser1 snd_conv fst_conv
    using u1 u2 t2' de1 de2 asA asB by (simp add: ser2)
  have g1: "case serialize mt' S m' p e' args of
      (Returned q, s) \<Rightarrow> q = pos s | (Raised err, s) \<Rightarrow> True"
    and g2: "case deserialize S m' p e' args of
      (Returned q, s) \<Rightarrow> q = pos s | (Raised err, s) \<Rightarrow> True"
    using returns_final_position [of mt' S m' p e' args] by simp_all
  from g1 g2 main show ?thesis by (simp only: simp_thms)
qed

theorem two_records_back_to_back_witness:
  "has_ty (seven_and_AB 0) (TRaw 1) \<and> has_ty (seven_and_AB 1) TString \<and>
   length (record_of seven_and_AB [(TRaw 1, 0)]) + length (record_of seven_and_AB [(TString, 1)])
     < (2 :: nat) ^ 64 \<and>
   serialize vector_t Binary [] 0 seven_and_AB (map Plain [(TRaw 1, 0)]) =
     (Returned 1, \<lparr>mem = [7], pos = 1, vars = seven_and_AB\<rparr>) \<and>
   serialize vector_t Binary [7] 1 seven_and_AB (map Plain [(TString, 1)]) =
     (Returned 11, \<lparr>mem = [7, 2, 0, 0, 0, 0, 0, 0, 0, 65, 66], pos = 11, vars = seven_and_AB\<rparr>) \<and>
   deserialize Binary [7, 2, 0, 0, 0, 0, 0, 0, 0, 65, 66] 0 sevens (map Plain [(TRaw 1, 0)]) =
     (Returned 1, \<lparr>mem = [7, 2, 0, 0, 0, 0, 0, 0, 0, 65, 66], pos = 1,
                    vars = assigned seven_and_AB [(TRaw 1, 0)] sevens\<rparr>) \<and>
   deserialize Binary [7, 2, 0, 0, 0, 0, 0, 0, 0, 65, 66] 1 sevens (map Plain [(TString, 1)]) =
     (Returned 11, \<lparr>mem = [7, 2, 0, 0, 0, 0, 0, 0, 0, 65, 66], pos = 11,
                     vars = assigned seven_and_AB [(TString, 1)] sevens\<rparr>) \<and>
   assigned seven_and_AB [(TString, 1)] sevens 1 = VStr [65, 66]"
proof -
  have h1: "\<forall>a\<in>set ([(TRaw 1, 0)] @ [(TString, 1)]). has_ty (seven_and_AB (snd a)) (fst a)"
    by (simp add: seven_and_AB_def)
  have h2: "length (record_of seven_and_AB [(TRaw 1, 0)]) +
      length (record_of seven_and_AB [(TString, 1)]) < (2 :: nat) ^ 64"
    by (simp only: record_seven record_AB) simp
  have n: "(of_nat (length [7 :: byte]) :: size_t) = 1"
    "(1 :: size_t) + of_nat (length [2, 0, 0, 0, 0, 0, 0, 0, 65, 66 :: byte]) = 11"
    by simp_all
  note t = two_records_back_to_back [OF h1 h2, of vector_t Binary "[]" 0 sevens "[]" vector_t "[]" sevens,
      unfolded Let_def record_seven record_AB n serialize_seven snd_conv fst_conv
        Serializer.simps serialize_AB]
  from t have d1: "deserialize Binary [7, 2, 0, 0, 0, 0, 0, 0, 0, 65, 66] 0 sevens (map Plain [(TRaw 1, 0)]) =
     (Returned 1, \<lparr>mem = [7, 2, 0, 0, 0, 0, 0, 0, 0, 65, 66], pos = 1,
                    vars = assigned seven_and_AB [(TRaw 1, 0)] sevens\<rparr>)" by blast
  from t have d2: "deserialize Binary [7, 2, 0, 0, 0, 0, 0, 0, 0, 65, 66] 1 sevens (map Plain [(TString, 1)]) =
     (Returned 11, \<lparr>mem = [7, 2, 0, 0, 0, 0, 0, 0, 0, 65, 66], pos = 11,
                     vars = assigned seven_and_AB [(TString, 1)] sevens\<rparr>)" by blast
  from t have "\<forall>a\<in>set [(TString, 1 :: nat)]. assigned seven_and_AB [(TString, 1)] sevens (snd a) =
      seven_and_AB (snd a)" by blast
  then have v: "assigned seven_and_AB [(TString, 1)] sevens 1 = VStr [65, 66]"
    by (simp add: seven_and_AB_def)
  have ty: "has_ty (seven_and_AB 0) (TRaw 1)" "has_ty (seven_and_AB 1) TString"
    by (simp_all add: seven_and_AB_def)
  show ?thesis
    by (intro conjI) (rule ty h2 serialize_seven serialize_AB d1 d2 v)+
qed

text \<open>
  C10. Take a state in which no pointer attribute of the slots \<open>rs\<close> dangles and no two
  of them own the same allocation, a chain over these slots, and a convertor that ends
  no allocation and returns only new allocations. Then, whether \<open>deserialize\<close> returns
  or an exception leaves it, the state it leaves has the same two properties. For the
  head of the chain, when it is of pointer type: the state in which the convertor is
  invoked has the attribute null, with its old value deleted, and has the two
  properties; and when the convertor throws, the exception leaves \<open>deserialize\<close> with
  the attribute null.
\<close>

theorem pointer_attribute_never_dangles:
  assumes conv: "allocates_only conv"
    and ol: "owned_live rs s" and us: "unshared rs s"
    and sub: "set (slots c) \<subseteq> set rs"
  shows "owned_live rs (snd (snd (AttrContainer_deserialize conv c (str, s)))) \<and>
         unshared rs (snd (snd (AttrContainer_deserialize conv c (str, s)))) \<and>
         (\<forall>H r nm nxt p. c = Node H r nm nxt \<and> is_pointer_v H \<and> attrs s r = Ptr p \<longrightarrow>
            (case release H r s of
               Raised e \<Rightarrow> False
             | Returned s1 \<Rightarrow>
                 attrs s1 r = Ptr None \<and> owned_live rs s1 \<and> unshared rs s1 \<and>
                 (\<forall>e str' h'.
                    conv_deserialize conv H str (Ptr None) (heap s1) = (Raised e, str', h') \<longrightarrow>
                    AttrContainer_deserialize conv c (str, s) = (Raised e, str', s1\<lparr>heap := h'\<rparr>) \<and>
                    attrs (snd (snd (AttrContainer_deserialize conv c (str, s)))) r = Ptr None)))"
proof (intro conjI allI impI)
  obtain out str' s' where run: "AttrContainer_deserialize conv c (str, s) = (out, str', s')"
    by (cases "AttrContainer_deserialize conv c (str, s)")
  from deserialize_sound [OF conv ol us sub run]
  show "owned_live rs (snd (snd (AttrContainer_deserialize conv c (str, s))))"
    and "unshared rs (snd (snd (AttrContainer_deserialize conv c (str, s))))"
    by (simp_all add: run)
next
  fix H r nm nxt p
  assume h: "c = Node H r nm nxt \<and> is_pointer_v H \<and> attrs s r = Ptr p"
  then have c: "c = Node H r nm nxt" and H: "is_pointer_v H" and p: "attrs s r = Ptr p"
    by simp_all
  from sub c have r: "r \<in> set rs" by simp
  from release_pointer [OF ol r H p]
  obtain s1 where rel: "release H r s = Returned s1" and nul: "attrs s1 r = Ptr None" by blast
  from release_sound [OF ol us r, of H] rel
  have ol1: "owned_live rs s1" and us1: "unshared rs s1" by simp_all
  have fail: "\<forall>e str' h'.
      conv_deserialize conv H str (Ptr None) (heap s1) = (Raised e, str', h') \<longrightarrow>
      AttrContainer_deserialize conv c (str, s) = (Raised e, str', s1\<lparr>heap := h'\<rparr>) \<and>
      attrs (snd (snd (AttrContainer_deserialize conv c (str, s)))) r = Ptr None"
    by (simp add: c rel nul)
  show "case release H r s of
      Raised e \<Rightarrow> False
    | Returned s1 \<Rightarrow>
        attrs s1 r = Ptr None \<and> owned_live rs s1 \<and> unshared rs s1 \<and>
        (\<forall>e str' h'.
           conv_deserialize conv H str (Ptr None) (heap s1) = (Raised e, str', h') \<longrightarrow>
           AttrContainer_deserialize conv c (str, s) = (Raised e, str', s1\<lparr>heap := h'\<rparr>) \<and>
           attrs (snd (snd (AttrContainer_deserialize conv c (str, s)))) r = Ptr None)"
    unfolding rel outcome.case using nul ol1 us1 fail by (intro conjI)
qed


theorem pointer_attribute_never_dangles_witness:
  "attrs one_owner 0 = Ptr (Some 0) \<and> live (heap one_owner) 0 \<and>
   AttrContainer_deserialize SpecConvertor (Node (TPtr (TRaw 1)) 0 ''p'' Empty) ([], one_owner) =
     (Raised OutOfRange, [],
      one_owner\<lparr>attrs := (attrs one_owner)(0 := Ptr None), heap := [None]\<rparr>) \<and>
   attrs (snd (snd (AttrContainer_deserialize SpecConvertor
            (Node (TPtr (TRaw 1)) 0 ''p'' Empty) ([], one_owner)))) 0 = Ptr None \<and>
   \<not> live (heap (snd (snd (AttrContainer_deserialize SpecConvertor
            (Node (TPtr (TRaw 1)) 0 ''p'' Empty) ([], one_owner))))) 0"
proof -
  let ?c = "Node (TPtr (TRaw 1)) 0 ''p'' Empty"
  let ?s1 = "one_owner\<lparr>attrs := (attrs one_owner)(0 := Ptr None), heap := [None]\<rparr>"
  have h4: "set (slots ?c) \<subseteq> set [0]" by simp
  note t = pointer_attribute_never_dangles
    [OF allocates_only_SpecConvertor one_owner_sound h4, of "[]"]
  from t have ol: "owned_live [0] (snd (snd (AttrContainer_deserialize SpecConvertor ?c ([], one_owner))))"
    by (rule conjunct1)
  from t have "\<forall>H r nm nxt p. ?c = Node H r nm nxt \<and> is_pointer_v H \<and> attrs one_owner r = Ptr p \<longrightarrow>
            (case release H r one_owner of
               Raised e \<Rightarrow> False
             | Returned s1 \<Rightarrow>
                 attrs s1 r = Ptr None \<and> owned_live [0] s1 \<and> unshared [0] s1 \<and>
                 (\<forall>e str' h'.
                    conv_deserialize SpecConvertor H [] (Ptr None) (heap s1) = (Raised e, str', h') \<longrightarrow>
                    AttrContainer_deserialize SpecConvertor ?c ([], one_owner) =
                      (Raised e, str', s1\<lparr>heap := h'\<rparr>) \<and>
                    attrs (snd (snd (AttrContainer_deserialize SpecConvertor ?c ([], one_owner)))) r = Ptr None))"
    by (rule conjunct2 [THEN conjunct2])
  then have "?c = ?c \<and> is_pointer_v (TPtr (TRaw 1)) \<and> attrs one_owner 0 = Ptr (Some 0) \<longrightarrow>
            (case release (TPtr (TRaw 1)) 0 one_owner of
               Raised e \<Rightarrow> False
             | Returned s1 \<Rightarrow>
                 attrs s1 0 = Ptr None \<and> owned_live [0] s1 \<and> unshared [0] s1 \<and>
                 (\<forall>e str' h'.
                    conv_deserialize SpecConvertor (TPtr (TRaw 1)) [] (Ptr None) (heap s1) = (Raised e, str', h') \<longrightarrow>
                    AttrContainer_deserialize SpecConvertor ?c ([], one_owner) =
                      (Raised e, str', s1\<lparr>heap := h'\<rparr>) \<and>
                    attrs (snd (snd (AttrContainer_deserialize SpecConvertor ?c ([], one_owner)))) 0 = Ptr None))"
    by (elim allE)
  moreover have "attrs one_owner 0 = Ptr (Some 0)" by (simp add: one_owner_def)
  ultimately have "\<forall>e str' h'.
      conv_deserialize SpecConvertor (TPtr (TRaw 1)) [] (Ptr None) (heap ?s1) = (Raised e, str', h') \<longrightarrow>
      AttrContainer_deserialize SpecConvertor ?c ([], one_owner) = (Raised e, str', ?s1\<lparr>heap := h'\<rparr>) \<and>
      attrs (snd (snd (AttrContainer_deserialize SpecConvertor ?c ([], one_owner)))) 0 = Ptr None"
    unfolding release_one_owner outcome.case by simp
  moreover have "conv_deserialize SpecConvertor (TPtr (TRaw 1)) [] (Ptr None) (heap ?s1) =
      (Raised OutOfRange, [], [None])"
    by (simp add: SpecConvertor_def spec_deserialize_def)
  ultimately have run: "AttrContainer_deserialize SpecConvertor ?c ([], one_owner) =
        (Raised OutOfRange, [], ?s1\<lparr>heap := [None]\<rparr>) \<and>
      attrs (snd (snd (AttrContainer_deserialize SpecConvertor ?c ([], one_owner)))) 0 = Ptr None"
    by blast
  then have r1: "AttrContainer_deserialize SpecConvertor ?c ([], one_owner) =
        (Raised OutOfRange, [], ?s1)" by simp
  from run have r2: "attrs (snd (snd (AttrContainer_deserialize SpecConvertor ?c ([], one_owner)))) 0 = Ptr None"
    by (rule conjunct2)
  have a0: "attrs one_owner 0 = Ptr (Some 0)" "live (heap one_owner) 0"
    by (simp_all add: one_owner_def live_def)
  have r3: "\<not> live (heap (snd (snd (AttrContainer_deserialize SpecConvertor ?c ([], one_owner))))) 0"
    unfolding r1 by (simp add: live_def)
  show ?thesis
    by (intro conjI) (rule a0 r1 r2 r3)+
qed

text \<open>
  C3. A node of pointer type whose attribute owns a live allocation. Its \<open>deserialize\<close>
  deletes the allocation and sets the attribute to null first; the convertor, whatever
  it is, is invoked with the null attribute and the free store in which the old
  allocation has ended. With the convertor of the specification: decoding an encoded
  null pointer returns with the attribute null and the old allocation ended; decoding
  an encoded pointee returns with the attribute owning a new live allocation that holds
  the decoded value, and the old allocation ended. In both cases no cell but the old
  one was ended, and it was ended once: no \<open>delete\<close> fails.
\<close>

theorem pointer_decode_frees_old_value:
  assumes a: "attrs s r = Ptr (Some a)" and l: "live (heap s) a"
  shows "let s1 = s\<lparr>attrs := (attrs s)(r := Ptr None), heap := (heap s)[a := None]\<rparr> in
     release (TPtr T) r s = Returned s1 \<and> \<not> live (heap s1) a \<and>
     AttrContainer_deserialize conv (Node (TPtr T) r nm nxt) (str, s) =
       (case conv_deserialize conv (TPtr T) str (Ptr None) (heap s1) of
          (Raised e, str', h') \<Rightarrow> (Raised e, str', s1\<lparr>heap := h'\<rparr>)
        | (Returned v, str', h') \<Rightarrow>
            AttrContainer_deserialize conv nxt
              (str', s1\<lparr>attrs := (attrs s1)(r := v), heap := h'\<rparr>)) \<and>
     AttrContainer_deserialize SpecConvertor (Node (TPtr T) r nm nxt)
         (encode (VPtr None) @ rest, s) =
       AttrContainer_deserialize SpecConvertor nxt (rest, s1) \<and>
     (has_ty v T \<longrightarrow>
        AttrContainer_deserialize SpecConvertor (Node (TPtr T) r nm nxt)
            (encode (VPtr (Some v)) @ rest, s) =
          AttrContainer_deserialize SpecConvertor nxt
            (rest, s\<lparr>attrs := (attrs s)(r := Ptr (Some (length (heap s)))),
                      heap := (heap s)[a := None] @ [Some v]\<rparr>) \<and>
        live ((heap s)[a := None] @ [Some v]) (length (heap s)) \<and>
        \<not> live ((heap s)[a := None] @ [Some v]) a)"
proof -
  let ?s1 = "s\<lparr>attrs := (attrs s)(r := Ptr None), heap := (heap s)[a := None]\<rparr>"
  have rel: "release (TPtr T) r s = Returned ?s1"
    using a l by (simp add: release_owned)
  have dead: "\<not> live (heap ?s1) a" by (simp add: live_delete)
  note run = deserialize_released [OF a l, unfolded Let_def]
  have null: "AttrContainer_deserialize SpecConvertor (Node (TPtr T) r nm nxt)
         (encode (VPtr None) @ rest, s) =
       AttrContainer_deserialize SpecConvertor nxt (rest, ?s1)"
    unfolding run spec_decode_null by simp
  have some: "has_ty v T \<longrightarrow>
        AttrContainer_deserialize SpecConvertor (Node (TPtr T) r nm nxt)
            (encode (VPtr (Some v)) @ rest, s) =
          AttrContainer_deserialize SpecConvertor nxt
            (rest, s\<lparr>attrs := (attrs s)(r := Ptr (Some (length (heap s)))),
                      heap := (heap s)[a := None] @ [Some v]\<rparr>) \<and>
        live ((heap s)[a := None] @ [Some v]) (length (heap s)) \<and>
        \<not> live ((heap s)[a := None] @ [Some v]) a"
  proof
    assume ty: "has_ty v T"
    have "a < length (heap s)" using l by (simp add: live_def)
    then have d: "\<not> live ((heap s)[a := None] @ [Some v]) a"
      by (simp add: live_def nth_append)
    have n: "live ((heap s)[a := None] @ [Some v]) (length (heap s))"
      using live_new [of "(heap s)[a := None]" v] by simp
    show "AttrContainer_deserialize SpecConvertor (Node (TPtr T) r nm nxt)
            (encode (VPtr (Some v)) @ rest, s) =
          AttrContainer_deserialize SpecConvertor nxt
            (rest, s\<lparr>attrs := (attrs s)(r := Ptr (Some (length (heap s)))),
                      heap := (heap s)[a := None] @ [Some v]\<rparr>) \<and>
        live ((heap s)[a := None] @ [Some v]) (length (heap s)) \<and>
        \<not> live ((heap s)[a := None] @ [Some v]) a"
      unfolding run spec_decode_pointee [OF ty] using d n by simp
  qed
  show ?thesis
    unfolding Let_def using rel dead run null some by (intro conjI)
qed


theorem pointer_decode_frees_old_value_witness:
  "attrs one_owner 0 = Ptr (Some 0) \<and> live (heap one_owner) 0 \<and> has_ty (VRaw [9]) (TRaw 1) \<and>
   AttrContainer_deserialize SpecConvertor (Node (TPtr (TRaw 1)) 0 ''p'' Empty) ([0], one_owner) =
     (Returned (), [], one_owner\<lparr>attrs := (attrs one_owner)(0 := Ptr None), heap := [None]\<rparr>) \<and>
   AttrContainer_deserialize SpecConvertor (Node (TPtr (TRaw 1)) 0 ''p'' Empty) ([1, 9], one_owner) =
     (Returned (), [],
      one_owner\<lparr>attrs := (attrs one_owner)(0 := Ptr (Some 1)), heap := [None, Some (VRaw [9])]\<rparr>)"
proof -
  have a0: "attrs one_owner 0 = Ptr (Some 0)" and l0: "live (heap one_owner) 0"
    by (simp_all add: one_owner_def live_def)
  have ty: "has_ty (VRaw [9]) (TRaw 1)" by simp
  have hp: "heap one_owner = [Some (VRaw [1])]" by (simp add: one_owner_def)
  note t = pointer_decode_frees_old_value [OF a0 l0, of "TRaw 1" SpecConvertor "''p''" Empty "[]" "[]"
      "VRaw [9]", unfolded Let_def]
  from t have "AttrContainer_deserialize SpecConvertor (Node (TPtr (TRaw 1)) 0 ''p'' Empty)
         (encode (VPtr None) @ [], one_owner) =
       AttrContainer_deserialize SpecConvertor Empty
         ([], one_owner\<lparr>attrs := (attrs one_owner)(0 := Ptr None), heap := (heap one_owner)[0 := None]\<rparr>)"
    by blast
  then have n: "AttrContainer_deserialize SpecConvertor (Node (TPtr (TRaw 1)) 0 ''p'' Empty) ([0], one_owner) =
     (Returned (), [], one_owner\<lparr>attrs := (attrs one_owner)(0 := Ptr None), heap := [None]\<rparr>)"
    by (simp add: hp)
  from t ty have "AttrContainer_deserialize SpecConvertor (Node (TPtr (TRaw 1)) 0 ''p'' Empty)
            (encode (VPtr (Some (VRaw [9]))) @ [], one_owner) =
          AttrContainer_deserialize SpecConvertor Empty
            ([], one_owner\<lparr>attrs := (attrs one_owner)(0 := Ptr (Some (length (heap one_owner)))),
                      heap := (heap one_owner)[0 := None] @ [Some (VRaw [9])]\<rparr>)"
    by blast
  then have p: "AttrContainer_deserialize SpecConvertor (Node (TPtr (TRaw 1)) 0 ''p'' Empty) ([1, 9], one_owner) =
     (Returned (), [],
      one_owner\<lparr>attrs := (attrs one_owner)(0 := Ptr (Some 1)), heap := [None, Some (VRaw [9])]\<rparr>)"
    by (simp add: hp)
  show ?thesis
    by (intro conjI) (rule a0 l0 ty n p)+
qed

text \<open>
  C1, with the encodings, the convertor and the binary strategy modelled from the
  specification. Decoding the encoding of a value of a type, by that type, gives the
  value back and consumes the encoding. A chain with distinct slots whose attributes
  hold values of the node types serializes to the encodings of these values in the
  order of the nodes; deserializing that string with the same chain, into a state
  whose pointer attributes neither dangle nor share an allocation, returns, consumes
  the string and leaves every attribute of the chain holding the value that was
  encoded. And \<open>deserialize\<close> on what \<open>serialize\<close> wrote at position 0 returns the
  position \<open>serialize\<close> returned and assigns every variable the value that was encoded.
\<close>

theorem decode_after_encode:
  "(has_ty v T \<longrightarrow> decode T (encode v) = Some (v, [])) \<and>
   (list_all2 has_ty (map (\<lambda>r. field_val (heap s) (attrs s r)) (slots c)) (types c) \<and>
    distinct (slots c) \<and> owned_live (slots c) s0 \<and> unshared (slots c) s0 \<longrightarrow>
      (let str = AttrContainer_serialize SpecConvertor s c [];
           res = AttrContainer_deserialize SpecConvertor c (str, s0);
           s' = snd (snd res)
       in str = concat (map (\<lambda>r. encode (field_val (heap s) (attrs s r))) (slots c)) \<and>
          fst res = Returned () \<and> fst (snd res) = [] \<and>
          map (\<lambda>r. field_val (heap s') (attrs s' r)) (slots c) =
            map (\<lambda>r. field_val (heap s) (attrs s r)) (slots c))) \<and>
   ((\<forall>a\<in>set as. has_ty (e (snd a)) (fst a)) \<and> length (record_of e as) < 2 ^ 64 \<longrightarrow>
      (let s1 = snd (serialize mt Binary m 0 e (map Plain as));
           res = deserialize Binary (mem s1) 0 e0 (map Plain as)
       in fst res = Returned (pos s1) \<and> (\<forall>a\<in>set as. vars (snd res) (snd a) = e (snd a))))"
proof (intro conjI impI)
  assume "has_ty v T"
  from decode_encode [OF this, of "[]"] show "decode T (encode v) = Some (v, [])" by simp
next
  let ?vs = "map (\<lambda>r. field_val (heap s) (attrs s r)) (slots c)"
  assume h: "list_all2 has_ty ?vs (types c) \<and> distinct (slots c) \<and>
      owned_live (slots c) s0 \<and> unshared (slots c) s0"
  then have ty: "list_all2 has_ty ?vs (types c)" and di: "distinct (slots c)"
    and ol: "owned_live (slots c) s0" and us: "unshared (slots c) s0" by simp_all
  have str: "AttrContainer_serialize SpecConvertor s c [] = concat (map encode ?vs)"
    by (simp add: spec_chain_serialize comp_def)
  from spec_chain_success [OF ol us subset_refl di ty, of "[]"]
  obtain s' where run: "AttrContainer_deserialize SpecConvertor c (concat (map encode ?vs), s0) =
      (Returned (), [], s')"
    and vals: "map (\<lambda>r. field_val (heap s') (attrs s' r)) (slots c) = ?vs"
    by auto
  show "let str = AttrContainer_serialize SpecConvertor s c [];
           res = AttrContainer_deserialize SpecConvertor c (str, s0);
           s' = snd (snd res)
       in str = concat (map (\<lambda>r. encode (field_val (heap s) (attrs s r))) (slots c)) \<and>
          fst res = Returned () \<and> fst (snd res) = [] \<and>
          map (\<lambda>r. field_val (heap s') (attrs s' r)) (slots c) =
            map (\<lambda>r. field_val (heap s) (attrs s r)) (slots c)"
    unfolding Let_def str run using vals by (simp add: comp_def)
next
  assume "(\<forall>a\<in>set as. has_ty (e (snd a)) (fst a)) \<and> length (record_of e as) < 2 ^ 64"
  then have typed: "\<forall>a\<in>set as. has_ty (e (snd a)) (fst a)"
    and fits: "length (record_of e as) < 2 ^ 64" by simp_all
  show "let s1 = snd (serialize mt Binary m 0 e (map Plain as));
           res = deserialize Binary (mem s1) 0 e0 (map Plain as)
       in fst res = Returned (pos s1) \<and> (\<forall>a\<in>set as. vars (snd res) (snd a) = e (snd a))"
    by (rule Binary_roundtrip [OF typed fits])
qed


theorem decode_after_encode_witness:
  "has_ty rows (TVec (TVec (TRaw 1))) \<and>
   decode (TVec (TVec (TRaw 1))) (encode rows) = Some (rows, []) \<and>
   AttrContainer_serialize SpecConvertor two_attrs two_nodes [] =
     [1, 7, 2, 0, 0, 0, 0, 0, 0, 0, 65, 66] \<and>
   fst (AttrContainer_deserialize SpecConvertor two_nodes
          ([1, 7, 2, 0, 0, 0, 0, 0, 0, 0, 65, 66], one_owner)) = Returned () \<and>
   field_val
     (heap (snd (snd (AttrContainer_deserialize SpecConvertor two_nodes
        ([1, 7, 2, 0, 0, 0, 0, 0, 0, 0, 65, 66], one_owner)))))
     (attrs (snd (snd (AttrContainer_deserialize SpecConvertor two_nodes
        ([1, 7, 2, 0, 0, 0, 0, 0, 0, 0, 65, 66], one_owner)))) 0) = VPtr (Some (VRaw [7])) \<and>
   field_val
     (heap (snd (snd (AttrContainer_deserialize SpecConvertor two_nodes
        ([1, 7, 2, 0, 0, 0, 0, 0, 0, 0, 65, 66], one_owner)))))
     (attrs (snd (snd (AttrContainer_deserialize SpecConvertor two_nodes
        ([1, 7, 2, 0, 0, 0, 0, 0, 0, 0, 65, 66], one_owner)))) 1) = VStr [65, 66] \<and>
   vars (snd (deserialize Binary
     (mem (snd (serialize vector_t Binary [] 0 sevens (map Plain [(TRaw 1, 0)]))))
     0 seven_and_AB (map Plain [(TRaw 1, 0)]))) 0 = VRaw [7]"
proof -
  let ?res = "AttrContainer_deserialize SpecConvertor two_nodes
        ([1, 7, 2, 0, 0, 0, 0, 0, 0, 0, 65, 66], one_owner)"
  have ty: "has_ty rows (TVec (TVec (TRaw 1)))" by (simp add: rows_def)
  have sl: "slots two_nodes = [0, 1]" and tys: "types two_nodes = [TPtr (TRaw 1), TString]"
    by (simp_all add: two_nodes_def)
  have h2: "list_all2 has_ty (map (\<lambda>r. field_val (heap two_attrs) (attrs two_attrs r)) (slots two_nodes))
        (types two_nodes) \<and>
      distinct (slots two_nodes) \<and> owned_live (slots two_nodes) one_owner \<and>
      unshared (slots two_nodes) one_owner"
    unfolding sl tys using one_owner_two_slots by (simp add: two_attrs_def field_val_def)
  have h3: "(\<forall>a\<in>set [(TRaw 1, 0 :: nat)]. has_ty (sevens (snd a)) (fst a)) \<and>
      length (record_of sevens [(TRaw 1, 0)]) < 2 ^ 64"
    by (simp add: sevens_def record_of_def)
  note t = decode_after_encode [of rows "TVec (TVec (TRaw 1))" two_attrs two_nodes one_owner
      "[(TRaw 1, 0)]" sevens vector_t "[]" seven_and_AB]
  from t ty have c1: "decode (TVec (TVec (TRaw 1))) (encode rows) = Some (rows, [])" by blast
  from t h2 have "let str = AttrContainer_serialize SpecConvertor two_attrs two_nodes [];
           res = AttrContainer_deserialize SpecConvertor two_nodes (str, one_owner);
           s' = snd (snd res)
       in str = concat (map (\<lambda>r. encode (field_val (heap two_attrs) (attrs two_attrs r))) (slots two_nodes)) \<and>
          fst res = Returned () \<and> fst (snd res) = [] \<and>
          map (\<lambda>r. field_val (heap s') (attrs s' r)) (slots two_nodes) =
            map (\<lambda>r. field_val (heap two_attrs) (attrs two_attrs r)) (slots two_nodes)"
    by blast
  then have c2: "fst ?res = Returned () \<and>
      map (\<lambda>r. field_val (heap (snd (snd ?res))) (attrs (snd (snd ?res)) r)) [0, 1] =
      map (\<lambda>r. field_val (heap two_attrs) (attrs two_attrs r)) [0, 1]"
    unfolding Let_def two_nodes_record sl by blast
  then have r0: "fst ?res = Returned ()" by (rule conjunct1)
  from c2 have v0: "field_val (heap (snd (snd ?res))) (attrs (snd (snd ?res)) 0) = VPtr (Some (VRaw [7]))"
    and v1: "field_val (heap (snd (snd ?res))) (attrs (snd (snd ?res)) 1) = VStr [65, 66]"
    by (simp_all add: two_attrs_def field_val_def)
  from t h3 have "let s1 = snd (serialize vector_t Binary [] 0 sevens (map Plain [(TRaw 1, 0)]));
           res = deserialize Binary (mem s1) 0 seven_and_AB (map Plain [(TRaw 1, 0)])
       in fst res = Returned (pos s1) \<and>
          (\<forall>a\<in>set [(TRaw 1, 0 :: nat)]. vars (snd res) (snd a) = sevens (snd a))"
    by blast
  then have b: "vars (snd (deserialize Binary
     (mem (snd (serialize vector_t Binary [] 0 sevens (map Plain [(TRaw 1, 0)]))))
     0 seven_and_AB (map Plain [(TRaw 1, 0)]))) 0 = VRaw [7]"
    unfolding Let_def by (simp add: sevens_def)
  show ?thesis
    by (intro conjI) (rule ty c1 two_nodes_record r0 v0 v1 b)+
qed





end
